theory Spec2Isabelle
  imports Complex_Main "HOL-Library.Multiset" "HOL-Library.List_Lexorder" "HOL-Library.Char_ord"
begin

section \<open>Provider data, as \<^verbatim>\<open>src/app/api/spotify/artists/route.ts\<close> reads it\<close>

text \<open>
  The route handler reads untyped objects returned by the streaming service. Every
  field it touches may be absent or \<^verbatim>\<open>null\<close>, so every field is an \<open>option\<close>;
  a whole object that is \<^verbatim>\<open>null\<close> (the source guards with \<^verbatim>\<open>?.\<close>) is \<open>None\<close> in the
  list that holds it. An item of a playlist is its \<^verbatim>\<open>track\<close> payload: \<open>None\<close> stands
  for an item that is \<^verbatim>\<open>null\<close> or has no track. Identifiers and names are strings, as
  the handler's type annotations have them.
\<close>

record artist_obj =
  artist_id :: "string option"
  artist_name :: "string option"

record track_obj =
  track_type :: "string option"
  track_id :: "string option"
  track_name :: "string option"
  track_artists :: "artist_obj option list option"

type_synonym item = "track_obj option"

record playlist_obj =
  playlist_id :: "string option"

record image_obj =
  image_url :: "string option"

record artist_meta =
  meta_id :: "string option"
  meta_images :: "image_obj option list option"

text \<open>JavaScript truthiness of a string-or-null value: \<^verbatim>\<open>null\<close> and \<^verbatim>\<open>""\<close> are falsy.\<close>

fun truthy :: "string option \<Rightarrow> bool" where
  "truthy None = False"
| "truthy (Some s) = (s \<noteq> [])"

section \<open>The accumulator tables\<close>

text \<open>
  A JavaScript \<^verbatim>\<open>Map\<close> iterates in insertion order and the ranking sorts stably, so the
  tables are association lists in insertion order. A \<^verbatim>\<open>Set<string>\<close> is the list of its
  members in insertion order.
\<close>

record artist_rec =
  name :: string
  songCount :: nat
  playlistCount :: nat
  imageUrl :: "string option"

record track_rec =
  tname :: string
  mainArtistId :: "string option"
  mainArtistName :: string
  mainArtistImageUrl :: "string option"
  tplaylistCount :: nat

type_synonym artist_map = "(string \<times> artist_rec) list"
type_synonym track_map = "(string \<times> track_rec) list"

definition set_add :: "string \<Rightarrow> string list \<Rightarrow> string list" where
  "set_add x xs = (if x \<in> set xs then xs else xs @ [x])"

text \<open>\<^verbatim>\<open>rec = m.get(k); if (rec) rec.field = ...\<close>: the entry of key \<open>k\<close> is changed in place.\<close>

fun modify :: "string \<Rightarrow> ('v \<Rightarrow> 'v) \<Rightarrow> (string \<times> 'v) list \<Rightarrow> (string \<times> 'v) list" where
  "modify k f [] = []"
| "modify k f ((k', v) # m) = (if k' = k then (k', f v) # m else (k', v) # modify k f m)"

record agg =
  uniqueTrackIds :: "string list"
  artistMap :: artist_map
  trackPlaylistMap :: track_map

definition empty_agg :: agg where
  "empty_agg = \<lparr>uniqueTrackIds = [], artistMap = [], trackPlaylistMap = []\<rparr>"

section \<open>The playlist aggregator (lines 55 to 125)\<close>

text \<open>
  \<^verbatim>\<open>const artistId = a?.id; const artistName = a?.name;
  if (!artistId || !artistName) continue;\<close>
\<close>

fun credit :: "artist_obj option \<Rightarrow> (string \<times> string) option" where
  "credit None = None"
| "credit (Some a) =
     (if truthy (artist_id a) \<and> truthy (artist_name a)
      then Some (the (artist_id a), the (artist_name a)) else None)"

text \<open>Lines 92 to 100: the song count of every credited artist of a new unique track.\<close>

fun count_song :: "artist_obj option list \<Rightarrow> artist_map \<Rightarrow> artist_map" where
  "count_song [] m = m"
| "count_song (a # as) m =
     (case credit a of
        None \<Rightarrow> count_song as m
      | Some (artistId, artistName) \<Rightarrow>
          (case map_of m artistId of
             Some prev \<Rightarrow> count_song as (modify artistId (\<lambda>r. r\<lparr>songCount := songCount r + 1\<rparr>) m)
           | None \<Rightarrow> count_song as
               (m @ [(artistId, \<lparr>name = artistName, songCount = 1, playlistCount = 0,
                                  imageUrl = None\<rparr>)])))"

text \<open>Lines 104 to 113: playlist presence of every credited artist.\<close>

fun note_presence ::
  "artist_obj option list \<Rightarrow> string list \<times> artist_map \<Rightarrow> string list \<times> artist_map" where
  "note_presence [] (seen, m) = (seen, m)"
| "note_presence (a # as) (seen, m) =
     (case credit a of
        None \<Rightarrow> note_presence as (seen, m)
      | Some (artistId, artistName) \<Rightarrow>
          note_presence as
            (set_add artistId seen,
             (if map_of m artistId = None
              then m @ [(artistId, \<lparr>name = artistName, songCount = 0, playlistCount = 0,
                                     imageUrl = None\<rparr>)]
              else m)))"

text \<open>
  The checks of lines 65 to 69: the identifier of a playable item, \<open>None\<close> when the
  item is skipped.
\<close>

fun playable :: "item \<Rightarrow> (string \<times> track_obj) option" where
  "playable None = None"
| "playable (Some track) =
     (if track_type track \<noteq> Some ''track'' then None
      else if \<not> truthy (track_id track) then None
      else Some (the (track_id track), track))"

definition artists_of :: "track_obj \<Rightarrow> artist_obj option list" where
  "artists_of track = (case track_artists track of None \<Rightarrow> [] | Some as \<Rightarrow> as)"

text \<open>Lines 73 to 86: the track's entry, made at its first occurrence.\<close>

definition new_track_rec :: "track_obj \<Rightarrow> track_rec" where
  "new_track_rec track =
     (let trackName = (case track_name track of None \<Rightarrow> ''Unknown track'' | Some n \<Rightarrow> n);
          mainArtist = (case track_artists track of
                          None \<Rightarrow> None
                        | Some [] \<Rightarrow> None
                        | Some (a # _) \<Rightarrow> a)
      in \<lparr>tname = trackName,
          mainArtistId = (case mainArtist of None \<Rightarrow> None | Some a \<Rightarrow> artist_id a),
          mainArtistName = (case mainArtist of
                              None \<Rightarrow> ''Unknown artist''
                            | Some a \<Rightarrow> (case artist_name a of
                                          None \<Rightarrow> ''Unknown artist'' | Some n \<Rightarrow> n)),
          mainArtistImageUrl = None,
          tplaylistCount = 0\<rparr>)"

text \<open>
  The loop state of one playlist: the tables and the two sets scoped to the playlist.
\<close>

record pl_state =
  tables :: agg
  artistIdsInPlaylist :: "string list"
  trackIdsInPlaylist :: "string list"

definition process_item :: "item \<Rightarrow> pl_state \<Rightarrow> pl_state" where
  "process_item it s =
     (case playable it of
        None \<Rightarrow> s
      | Some (trackId, track) \<Rightarrow>
          (let st = tables s;
               tids = set_add trackId (trackIdsInPlaylist s);
               tm = (if map_of (trackPlaylistMap st) trackId = None
                     then trackPlaylistMap st @ [(trackId, new_track_rec track)]
                     else trackPlaylistMap st);
               isNewUniqueTrack = (trackId \<notin> set (uniqueTrackIds st));
               uniq = (if isNewUniqueTrack then set_add trackId (uniqueTrackIds st)
                       else uniqueTrackIds st);
               am = (if isNewUniqueTrack then count_song (artists_of track) (artistMap st)
                     else artistMap st);
               (aids, am') = note_presence (artists_of track) (artistIdsInPlaylist s, am)
           in \<lparr>tables = \<lparr>uniqueTrackIds = uniq, artistMap = am', trackPlaylistMap = tm\<rparr>,
               artistIdsInPlaylist = aids,
               trackIdsInPlaylist = tids\<rparr>))"

fun process_items :: "item list \<Rightarrow> pl_state \<Rightarrow> pl_state" where
  "process_items [] s = s"
| "process_items (it # its) s = process_items its (process_item it s)"

text \<open>Lines 116 to 124: one increment for every member of each playlist-scoped set.\<close>

fun bump_artists :: "string list \<Rightarrow> artist_map \<Rightarrow> artist_map" where
  "bump_artists [] m = m"
| "bump_artists (artistId # ids) m =
     bump_artists ids (modify artistId (\<lambda>r. r\<lparr>playlistCount := playlistCount r + 1\<rparr>) m)"

fun bump_tracks :: "string list \<Rightarrow> track_map \<Rightarrow> track_map" where
  "bump_tracks [] m = m"
| "bump_tracks (trackId # ids) m =
     bump_tracks ids (modify trackId (\<lambda>r. r\<lparr>tplaylistCount := tplaylistCount r + 1\<rparr>) m)"

definition process_playlist :: "agg \<Rightarrow> item list \<Rightarrow> agg" where
  "process_playlist st items =
     (let s = process_items items
                \<lparr>tables = st, artistIdsInPlaylist = [], trackIdsInPlaylist = []\<rparr>
      in (tables s)\<lparr>artistMap := bump_artists (artistIdsInPlaylist s) (artistMap (tables s)),
                    trackPlaylistMap :=
                      bump_tracks (trackIdsInPlaylist s) (trackPlaylistMap (tables s))\<rparr>)"

section \<open>The providers and the scan loop\<close>

text \<open>
  The credential provider and the three fetch helpers of \<^verbatim>\<open>src/app/lib/spotify.ts\<close> are
  the engine's external collaborators. A helper either returns its complete list or
  throws; a thrown error is \<open>Inl\<close>. What a helper returns is a function of its
  arguments. Every call the handler makes is recorded, in order.
\<close>

datatype error = Thrown string

record provider =
  getAccessToken :: "string option"
  fetchAllPlaylists :: "string \<Rightarrow> error + playlist_obj option list"
  fetchAllPlaylistTracks :: "string \<Rightarrow> string \<Rightarrow> error + item list"
  fetchArtistsByIds :: "string \<Rightarrow> string list \<Rightarrow> error + artist_meta option list"

datatype call =
    GetAccessToken
  | FetchAllPlaylists string
  | FetchAllPlaylistTracks string string
  | FetchArtistsByIds string "string list"

text \<open>\<^verbatim>\<open>const playlistId = pl?.id;\<close>\<close>

fun id_of_playlist :: "playlist_obj option \<Rightarrow> string option" where
  "id_of_playlist None = None"
| "id_of_playlist (Some pl) = playlist_id pl"

fun scan_playlists ::
  "provider \<Rightarrow> string \<Rightarrow> playlist_obj option list \<Rightarrow> call list \<Rightarrow> agg
     \<Rightarrow> call list \<times> (error + agg)" where
  "scan_playlists P token [] calls st = (calls, Inr st)"
| "scan_playlists P token (pl # pls) calls st =
     (if \<not> truthy (id_of_playlist pl) then scan_playlists P token pls calls st
      else
        (let playlistId = the (id_of_playlist pl);
             calls' = calls @ [FetchAllPlaylistTracks token playlistId]
         in case fetchAllPlaylistTracks P token playlistId of
              Inl e \<Rightarrow> (calls', Inl e)
            | Inr items \<Rightarrow> scan_playlists P token pls calls' (process_playlist st items)))"

section \<open>The enrichment step (lines 130 to 153)\<close>

text \<open>
  \<^verbatim>\<open>Array.isArray(a?.images) && a.images.length > 0 ? (a.images[0]?.url ?? null) : null\<close>
\<close>

definition first_image_url :: "artist_meta \<Rightarrow> string option" where
  "first_image_url a =
     (case meta_images a of
        None \<Rightarrow> None
      | Some [] \<Rightarrow> None
      | Some (None # _) \<Rightarrow> None
      | Some (Some img # _) \<Rightarrow> image_url img)"

fun image_table ::
  "artist_meta option list \<Rightarrow> (string \<rightharpoonup> string option) \<Rightarrow> (string \<rightharpoonup> string option)" where
  "image_table [] m = m"
| "image_table (None # as) m = image_table as m"
| "image_table (Some a # as) m =
     (if \<not> truthy (meta_id a) then image_table as m
      else image_table as (m(the (meta_id a) \<mapsto> first_image_url a)))"

text \<open>\<^verbatim>\<open>imageByArtistId.get(id) ?? null\<close>\<close>

definition image_for :: "(string \<rightharpoonup> string option) \<Rightarrow> string \<Rightarrow> string option" where
  "image_for m k = (case m k of None \<Rightarrow> None | Some u \<Rightarrow> u)"

definition fill_images :: "(string \<rightharpoonup> string option) \<Rightarrow> agg \<Rightarrow> agg" where
  "fill_images imageByArtistId st =
     st\<lparr>artistMap :=
          map (\<lambda>(artistId, r). (artistId, r\<lparr>imageUrl := image_for imageByArtistId artistId\<rparr>))
            (artistMap st),
        trackPlaylistMap :=
          map (\<lambda>(trackId, r).
                 (trackId,
                  if truthy (mainArtistId r)
                  then r\<lparr>mainArtistImageUrl :=
                           image_for imageByArtistId (the (mainArtistId r))\<rparr>
                  else r))
            (trackPlaylistMap st)\<rparr>"

definition enrich :: "provider \<Rightarrow> string \<Rightarrow> call list \<Rightarrow> agg \<Rightarrow> call list \<times> (error + agg)" where
  "enrich P token calls st =
     (let allArtistIds = map fst (artistMap st)
      in if length allArtistIds > 0
         then (case fetchArtistsByIds P token allArtistIds of
                 Inl e \<Rightarrow> (calls @ [FetchArtistsByIds token allArtistIds], Inl e)
               | Inr artistObjs \<Rightarrow>
                   (calls @ [FetchArtistsByIds token allArtistIds],
                    Inr (fill_images (image_table artistObjs Map.empty) st)))
         else (calls, Inr st))"

section \<open>Ranking and percentages (lines 155 to 231)\<close>

text \<open>
  Counts are natural numbers. A percentage is a JavaScript number computed by one
  division and one multiplication; it is modelled by the exact rational value of the
  quotient. The division is only reached under the guard \<^verbatim>\<open>denom > 0\<close>.
\<close>

definition pct :: "nat \<Rightarrow> nat \<Rightarrow> rat" where
  "pct x denom = (if denom > 0 then (of_nat x / of_nat denom) * 100 else 0)"

record ArtistAgg =
  aa_artistId :: string
  aa_artistName :: string
  aa_songCount :: nat
  aa_playlistCount :: nat
  aa_imageUrl :: "string option"

record TrackPlaylistAgg =
  tp_trackId :: string
  tp_trackName :: string
  tp_mainArtistId :: "string option"
  tp_mainArtistName :: string
  tp_mainArtistImageUrl :: "string option"
  tp_playlistCount :: nat

record TopArtist =
  ta_artistId :: string
  ta_artistName :: string
  ta_imageUrl :: "string option"
  ta_value :: nat
  ta_percent :: rat

record TopTrack =
  tt_trackId :: string
  tt_trackName :: string
  tt_mainArtistId :: "string option"
  tt_mainArtistName :: string
  tt_mainArtistImageUrl :: "string option"
  tt_playlistCount :: nat
  tt_percent :: rat

record ArtistRow =
  ar_artistId :: string
  ar_artistName :: string
  ar_imageUrl :: "string option"
  ar_songCount :: nat
  ar_songPercent :: rat
  ar_playlistCount :: nat
  ar_playlistPercent :: rat

record ArtistDeckItem =
  di_artistId :: string
  di_artistName :: string
  di_imageUrl :: "string option"
  di_trackCount :: nat

record Totals =
  totalPlaylists :: nat
  totalArtists :: nat
  totalUniqueTracks :: nat

record Snapshot =
  totals :: Totals
  topArtistsBySongs :: "TopArtist list"
  topArtistsByPlaylists :: "TopArtist list"
  topTracksByPlaylists :: "TopTrack list"
  artistTable :: "ArtistRow list"
  artists :: "ArtistDeckItem list"

text \<open>
  \<^verbatim>\<open>Array.prototype.sort\<close> with a comparator is stable: an element moves in front of
  another only when the comparator puts it strictly before. It is modelled by the
  stable insertion sort, which is the list every stable sort returns when the
  comparator is consistent. \<^verbatim>\<open>String.prototype.localeCompare\<close> belongs to the runtime
  and its locale data; it is the parameter \<open>lc\<close>, negative, zero or positive.
\<close>

fun insert_by :: "('a \<Rightarrow> 'a \<Rightarrow> int) \<Rightarrow> 'a \<Rightarrow> 'a list \<Rightarrow> 'a list" where
  "insert_by c x [] = [x]"
| "insert_by c x (y # ys) = (if c x y \<le> 0 then x # y # ys else y # insert_by c x ys)"

fun sort_by :: "('a \<Rightarrow> 'a \<Rightarrow> int) \<Rightarrow> 'a list \<Rightarrow> 'a list" where
  "sort_by c [] = []"
| "sort_by c (x # xs) = insert_by c x (sort_by c xs)"

text \<open>\<^verbatim>\<open>x || y\<close> on numbers: \<open>y\<close> when \<open>x\<close> is zero.\<close>

definition or_else :: "int \<Rightarrow> int \<Rightarrow> int" where
  "or_else x y = (if x \<noteq> 0 then x else y)"

definition by_songs :: "(string \<Rightarrow> string \<Rightarrow> int) \<Rightarrow> ArtistAgg \<Rightarrow> ArtistAgg \<Rightarrow> int" where
  "by_songs lc a b =
     or_else (int (aa_songCount b) - int (aa_songCount a)) (lc (aa_artistName a) (aa_artistName b))"

definition by_playlists :: "(string \<Rightarrow> string \<Rightarrow> int) \<Rightarrow> ArtistAgg \<Rightarrow> ArtistAgg \<Rightarrow> int" where
  "by_playlists lc a b =
     or_else (int (aa_playlistCount b) - int (aa_playlistCount a))
       (lc (aa_artistName a) (aa_artistName b))"

definition tracks_by_playlists ::
  "(string \<Rightarrow> string \<Rightarrow> int) \<Rightarrow> TrackPlaylistAgg \<Rightarrow> TrackPlaylistAgg \<Rightarrow> int" where
  "tracks_by_playlists lc a b =
     or_else (int (tp_playlistCount b) - int (tp_playlistCount a))
       (lc (tp_trackName a) (tp_trackName b))"

definition to_ArtistAgg :: "string \<times> artist_rec \<Rightarrow> ArtistAgg" where
  "to_ArtistAgg e =
     (case e of (artistId, v) \<Rightarrow>
        \<lparr>aa_artistId = artistId, aa_artistName = name v, aa_songCount = songCount v,
         aa_playlistCount = playlistCount v, aa_imageUrl = imageUrl v\<rparr>)"

definition to_TrackPlaylistAgg :: "string \<times> track_rec \<Rightarrow> TrackPlaylistAgg" where
  "to_TrackPlaylistAgg e =
     (case e of (trackId, v) \<Rightarrow>
        \<lparr>tp_trackId = trackId, tp_trackName = tname v, tp_mainArtistId = mainArtistId v,
         tp_mainArtistName = mainArtistName v,
         tp_mainArtistImageUrl = mainArtistImageUrl v,
         tp_playlistCount = tplaylistCount v\<rparr>)"

definition top_by_songs :: "nat \<Rightarrow> ArtistAgg \<Rightarrow> TopArtist" where
  "top_by_songs nUniqueTracks a =
     \<lparr>ta_artistId = aa_artistId a, ta_artistName = aa_artistName a,
      ta_imageUrl = aa_imageUrl a, ta_value = aa_songCount a,
      ta_percent = pct (aa_songCount a) nUniqueTracks\<rparr>"

definition top_by_playlists :: "nat \<Rightarrow> ArtistAgg \<Rightarrow> TopArtist" where
  "top_by_playlists nPlaylists a =
     \<lparr>ta_artistId = aa_artistId a, ta_artistName = aa_artistName a,
      ta_imageUrl = aa_imageUrl a, ta_value = aa_playlistCount a,
      ta_percent = pct (aa_playlistCount a) nPlaylists\<rparr>"

definition top_track :: "nat \<Rightarrow> TrackPlaylistAgg \<Rightarrow> TopTrack" where
  "top_track nPlaylists t =
     \<lparr>tt_trackId = tp_trackId t, tt_trackName = tp_trackName t,
      tt_mainArtistId = tp_mainArtistId t, tt_mainArtistName = tp_mainArtistName t,
      tt_mainArtistImageUrl = tp_mainArtistImageUrl t,
      tt_playlistCount = tp_playlistCount t,
      tt_percent = pct (tp_playlistCount t) nPlaylists\<rparr>"

definition table_row :: "nat \<Rightarrow> nat \<Rightarrow> ArtistAgg \<Rightarrow> ArtistRow" where
  "table_row nUniqueTracks nPlaylists a =
     \<lparr>ar_artistId = aa_artistId a, ar_artistName = aa_artistName a,
      ar_imageUrl = aa_imageUrl a, ar_songCount = aa_songCount a,
      ar_songPercent = pct (aa_songCount a) nUniqueTracks,
      ar_playlistCount = aa_playlistCount a,
      ar_playlistPercent = pct (aa_playlistCount a) nPlaylists\<rparr>"

definition deck_item :: "ArtistAgg \<Rightarrow> ArtistDeckItem" where
  "deck_item a =
     \<lparr>di_artistId = aa_artistId a, di_artistName = aa_artistName a,
      di_imageUrl = aa_imageUrl a, di_trackCount = aa_songCount a\<rparr>"

text \<open>
  Line 164 sorts \<^verbatim>\<open>artists\<close> in place; each ranking then sorts a copy and keeps the
  first five.
\<close>

definition sorted_artists :: "(string \<Rightarrow> string \<Rightarrow> int) \<Rightarrow> agg \<Rightarrow> ArtistAgg list" where
  "sorted_artists lc st = sort_by (by_songs lc) (map to_ArtistAgg (artistMap st))"

definition build_snapshot :: "(string \<Rightarrow> string \<Rightarrow> int) \<Rightarrow> nat \<Rightarrow> agg \<Rightarrow> Snapshot" where
  "build_snapshot lc nPlaylists st =
     (let nUniqueTracks = length (uniqueTrackIds st);
          arts = sorted_artists lc st
      in \<lparr>totals = \<lparr>totalPlaylists = nPlaylists, totalArtists = length arts,
                    totalUniqueTracks = nUniqueTracks\<rparr>,
          topArtistsBySongs =
            map (top_by_songs nUniqueTracks) (take 5 (sort_by (by_songs lc) arts)),
          topArtistsByPlaylists =
            map (top_by_playlists nPlaylists) (take 5 (sort_by (by_playlists lc) arts)),
          topTracksByPlaylists =
            map (top_track nPlaylists)
              (take 5 (sort_by (tracks_by_playlists lc)
                         (map to_TrackPlaylistAgg (trackPlaylistMap st)))),
          artistTable = map (table_row nUniqueTracks nPlaylists) arts,
          artists = map deck_item arts\<rparr>)"

section \<open>The route handler\<close>

datatype body = ErrorBody string | SnapshotBody Snapshot

record response =
  status :: nat
  body :: body

text \<open>
  The handler returns the calls it made and either the response or the error that
  escaped it.
\<close>

definition GET :: "(string \<Rightarrow> string \<Rightarrow> int) \<Rightarrow> provider \<Rightarrow> call list \<times> (error + response)" where
  "GET lc P =
     (let token = getAccessToken P
      in if \<not> truthy token
         then ([GetAccessToken],
               Inr \<lparr>status = 401, body = ErrorBody ''not_authenticated''\<rparr>)
         else
           (let tok = the token
            in case fetchAllPlaylists P tok of
                 Inl e \<Rightarrow> ([GetAccessToken, FetchAllPlaylists tok], Inl e)
               | Inr playlists \<Rightarrow>
                   (case scan_playlists P tok playlists
                           [GetAccessToken, FetchAllPlaylists tok] empty_agg of
                      (calls, Inl e) \<Rightarrow> (calls, Inl e)
                    | (calls, Inr st) \<Rightarrow>
                        (case enrich P tok calls st of
                           (calls', Inl e) \<Rightarrow> (calls', Inl e)
                         | (calls', Inr st') \<Rightarrow>
                             (calls',
                              Inr \<lparr>status = 200,
                                   body = SnapshotBody
                                            (build_snapshot lc (length playlists) st')\<rparr>)))))"

section \<open>What a scan has read\<close>

text \<open>
  The vocabulary the properties are stated in: the playable tracks of an item list,
  the credited artists of a track, the item lists the scan fetched, and the counters
  of an identifier in the tables (zero for an identifier with no entry).
\<close>

definition playable_tracks :: "item list \<Rightarrow> (string \<times> track_obj) list" where
  "playable_tracks items = List.map_filter playable items"

definition credits :: "track_obj \<Rightarrow> (string \<times> string) list" where
  "credits track = List.map_filter credit (artists_of track)"

definition track_ids :: "item list \<Rightarrow> string list" where
  "track_ids items = map fst (playable_tracks items)"

definition artist_ids :: "item list \<Rightarrow> string list" where
  "artist_ids items = concat (map (\<lambda>e. map fst (credits (snd e))) (playable_tracks items))"

fun fetched :: "provider \<Rightarrow> string \<Rightarrow> playlist_obj option list \<Rightarrow> item list list" where
  "fetched P token [] = []"
| "fetched P token (pl # pls) =
     (if \<not> truthy (id_of_playlist pl) then fetched P token pls
      else (case fetchAllPlaylistTracks P token (the (id_of_playlist pl)) of
              Inl e \<Rightarrow> fetched P token pls
            | Inr items \<Rightarrow> items # fetched P token pls))"

definition artist_songCount :: "artist_map \<Rightarrow> string \<Rightarrow> nat" where
  "artist_songCount m a = (case map_of m a of None \<Rightarrow> 0 | Some r \<Rightarrow> songCount r)"

definition artist_playlistCount :: "artist_map \<Rightarrow> string \<Rightarrow> nat" where
  "artist_playlistCount m a = (case map_of m a of None \<Rightarrow> 0 | Some r \<Rightarrow> playlistCount r)"

definition track_playlistCount :: "track_map \<Rightarrow> string \<Rightarrow> nat" where
  "track_playlistCount m t = (case map_of m t of None \<Rightarrow> 0 | Some r \<Rightarrow> tplaylistCount r)"

text \<open>No playable track of the item list credits the same artist identifier twice.\<close>

fun no_repeated_credit :: "item list \<Rightarrow> bool" where
  "no_repeated_credit [] = True"
| "no_repeated_credit (it # its) =
     ((case playable it of
         None \<Rightarrow> True
       | Some e \<Rightarrow> distinct (map fst (credits (snd e)))) \<and> no_repeated_credit its)"

text \<open>Every playable track of the item list credits at most one artist.\<close>

fun single_credit :: "item list \<Rightarrow> bool" where
  "single_credit [] = True"
| "single_credit (it # its) =
     ((case playable it of
         None \<Rightarrow> True
       | Some e \<Rightarrow> length (credits (snd e)) \<le> 1) \<and> single_credit its)"

text \<open>The song counts of all artists together.\<close>

definition total_songs :: "artist_map \<Rightarrow> nat" where
  "total_songs m = sum_list (map (\<lambda>e. songCount (snd e)) m)"

text \<open>
  What stays true while a playlist is processed: the two sets scoped to the playlist
  hold no identifier twice, and every member has an entry in its table.
\<close>

definition local_ok :: "pl_state \<Rightarrow> bool" where
  "local_ok s =
     (distinct (artistIdsInPlaylist s) \<and>
      distinct (trackIdsInPlaylist s) \<and>
      set (artistIdsInPlaylist s) \<subseteq> set (map fst (artistMap (tables s))) \<and>
      set (trackIdsInPlaylist s) \<subseteq> set (map fst (trackPlaylistMap (tables s))))"

text \<open>The tables hold every key once, as a \<^verbatim>\<open>Map\<close> and a \<^verbatim>\<open>Set\<close> do.\<close>

definition wf_agg :: "agg \<Rightarrow> bool" where
  "wf_agg st =
     (distinct (uniqueTrackIds st) \<and> distinct (map fst (artistMap st)) \<and>
      distinct (map fst (trackPlaylistMap st)))"

text \<open>No artist has more songs than there are unique tracks.\<close>

definition songs_bounded :: "agg \<Rightarrow> bool" where
  "songs_bounded st = (\<forall>a. artist_songCount (artistMap st) a \<le> length (uniqueTrackIds st))"

text \<open>
  The playlists the handler was given, and the item lists it fetched for those that
  have an identifier; both empty when the handler did not get that far.
\<close>

definition listed :: "provider \<Rightarrow> playlist_obj option list" where
  "listed P =
     (if \<not> truthy (getAccessToken P) then []
      else (case fetchAllPlaylists P (the (getAccessToken P)) of
              Inl e \<Rightarrow> []
            | Inr playlists \<Rightarrow> playlists))"

definition scanned :: "provider \<Rightarrow> item list list" where
  "scanned P = fetched P (the (getAccessToken P)) (listed P)"

text \<open>The successful response of the handler, if that is how it ended.\<close>

fun snapshot_of :: "call list \<times> (error + response) \<Rightarrow> Snapshot option" where
  "snapshot_of (calls, Inl e) = None"
| "snapshot_of (calls, Inr r) =
     (case body r of ErrorBody m \<Rightarrow> None | SnapshotBody s \<Rightarrow> Some s)"

text \<open>A comparator to run examples with: strings by their code units.\<close>

definition code_unit_compare :: "string \<Rightarrow> string \<Rightarrow> int" where
  "code_unit_compare a b = (if a < b then - 1 else if a = b then 0 else 1)"

text \<open>
  The comparator is consistent, as a sort needs it: any two names are comparable and
  the order is transitive.
\<close>

definition consistent :: "('a \<Rightarrow> 'a \<Rightarrow> int) \<Rightarrow> bool" where
  "consistent c =
     ((\<forall>a b. c a b \<le> 0 \<or> c b a \<le> 0) \<and> (\<forall>a b d. c a b \<le> 0 \<and> c b d \<le> 0 \<longrightarrow> c a d \<le> 0))"

text \<open>The playlists whose items were asked for, in the order of the calls.\<close>

fun tracks_calls :: "call list \<Rightarrow> string list" where
  "tracks_calls [] = []"
| "tracks_calls (FetchAllPlaylistTracks token playlistId # cs) = playlistId # tracks_calls cs"
| "tracks_calls (c # cs) = tracks_calls cs"

section \<open>The page component: progress files\<close>

text \<open>
  The page holds what \<^verbatim>\<open>JSON.parse\<close> returned: a value of JSON. An object is the list
  of its properties. Reading a property that is not there gives \<^verbatim>\<open>undefined\<close>, which is
  \<open>None\<close>. The keys the component reads are no built-in properties of strings,
  numbers, booleans or arrays, so on those every read is \<^verbatim>\<open>undefined\<close>.
\<close>

datatype json =
    JNull
  | JBool bool
  | JNum rat
  | JStr string
  | JArr "json list"
  | JObj "(string \<times> json) list"

fun get :: "string \<Rightarrow> json \<Rightarrow> json option" where
  "get k (JObj kvs) = map_of kvs k"
| "get k v = None"

fun js_truthy :: "json option \<Rightarrow> bool" where
  "js_truthy None = False"
| "js_truthy (Some JNull) = False"
| "js_truthy (Some (JBool b)) = b"
| "js_truthy (Some (JNum n)) = (n \<noteq> 0)"
| "js_truthy (Some (JStr s)) = (s \<noteq> [])"
| "js_truthy (Some (JArr xs)) = True"
| "js_truthy (Some (JObj kvs)) = True"

fun is_string :: "json option \<Rightarrow> bool" where
  "is_string (Some (JStr s)) = True"
| "is_string v = False"

fun is_array :: "json option \<Rightarrow> bool" where
  "is_array (Some (JArr xs)) = True"
| "is_array v = False"

text \<open>\<^verbatim>\<open>typeof v === "object"\<close>: objects, arrays and \<^verbatim>\<open>null\<close>.\<close>

fun typeof_object :: "json option \<Rightarrow> bool" where
  "typeof_object (Some (JObj kvs)) = True"
| "typeof_object (Some (JArr xs)) = True"
| "typeof_object (Some JNull) = True"
| "typeof_object v = False"

definition isProgressFileV1 :: "json \<Rightarrow> bool" where
  "isProgressFileV1 x =
     (js_truthy (Some x) \<and>
      get ''version'' x = Some (JNum 1) \<and>
      is_string (get ''exportedAt'' x) \<and>
      js_truthy (get ''data'' x) \<and>
      js_truthy (get ''totals'' (the (get ''data'' x))) \<and>
      is_array (get ''artists'' (the (get ''data'' x))) \<and>
      get ''deckIndex'' x \<noteq> None \<and>
      js_truthy (get ''decisions'' x) \<and>
      typeof_object (get ''decisions'' x))"

datatype view_mode = Start | Insights | Deck

text \<open>
  The state of the page that an import touches. \<^verbatim>\<open>localStorage\<close> holds texts written by
  \<^verbatim>\<open>saveJSON\<close>; it is modelled by the values they encode.
\<close>

record page =
  data :: "json option"
  error :: "string option"
  mode :: view_mode
  insightPage :: rat
  decisions :: json
  deckIndex :: rat
  storage :: "string \<rightharpoonup> json"

text \<open>
  The selected file: none, one whose reading or parsing threw an error with the given
  message, or the parsed value.
\<close>

datatype upload = NoFile | Unreadable string | Parsed json

text \<open>
  \<^verbatim>\<open>Number(n)\<close> is the runtime's conversion, the parameter \<open>toNumber\<close>; \<open>None\<close> stands
  for a result that is not finite.
\<close>

definition safeNumber :: "(json option \<Rightarrow> rat option) \<Rightarrow> json option \<Rightarrow> rat \<Rightarrow> rat" where
  "safeNumber toNumber n fallback = (case toNumber n of None \<Rightarrow> fallback | Some x \<Rightarrow> x)"

text \<open>\<^verbatim>\<open>restored.decisions ?? {}\<close>\<close>

fun or_empty_object :: "json option \<Rightarrow> json" where
  "or_empty_object None = JObj []"
| "or_empty_object (Some JNull) = JObj []"
| "or_empty_object (Some v) = v"

definition onResumeFileSelected :: "(json option \<Rightarrow> rat option) \<Rightarrow> upload \<Rightarrow> page \<Rightarrow> page" where
  "onResumeFileSelected toNumber file st =
     (case file of
        NoFile \<Rightarrow> st
      | Unreadable message \<Rightarrow>
          st\<lparr>error := Some (if message \<noteq> [] then message
                             else ''Failed to import progress file.''),
             mode := Start\<rparr>
      | Parsed parsed \<Rightarrow>
          (if \<not> isProgressFileV1 parsed
           then st\<lparr>error := Some ''Invalid progress file.'', mode := Start\<rparr>
           else
             (let restored_data = get ''data'' parsed;
                  restored_decisions = or_empty_object (get ''decisions'' parsed);
                  idx = safeNumber toNumber (get ''deckIndex'' parsed) 0
              in st\<lparr>error := None,
                    data := restored_data,
                    decisions := restored_decisions,
                    deckIndex := idx,
                    insightPage := safeNumber toNumber (get ''insightPage'' parsed) 0,
                    mode := (if get ''mode'' parsed = Some (JStr ''deck'') then Deck
                             else Insights),
                    storage := (storage st)
                      (''whiplash_snapshot_v1'' \<mapsto> the restored_data,
                       ''whiplash_decisions_v1'' \<mapsto> restored_decisions,
                       ''whiplash_deck_index_v1'' \<mapsto> JNum idx)\<rparr>)))"

section \<open>The page component: saving progress\<close>














section \<open>Libraries and files to run the definitions on\<close>

definition mk_artist :: "string \<Rightarrow> string \<Rightarrow> artist_obj option" where
  "mk_artist i n = Some \<lparr>artist_id = Some i, artist_name = Some n\<rparr>"

definition mk_track :: "string \<Rightarrow> artist_obj option list \<Rightarrow> item" where
  "mk_track i as =
     Some \<lparr>track_type = Some ''track'', track_id = Some i, track_name = Some i,
           track_artists = Some as\<rparr>"

text \<open>
  A signed-in user whose playlists are the given ones, in order; a playlist with no
  identifier is listed as it is and cannot be fetched.
\<close>

definition mk_library :: "(string option \<times> item list) list \<Rightarrow> provider" where
  "mk_library pls =
     \<lparr>getAccessToken = Some ''token'',
      fetchAllPlaylists = (\<lambda>token. Inr (map (\<lambda>e. Some \<lparr>playlist_id = fst e\<rparr>) pls)),
      fetchAllPlaylistTracks =
        (\<lambda>token playlistId.
           case map_of pls (Some playlistId) of
             None \<Rightarrow> Inl (Thrown ''Spotify API error 404'')
           | Some items \<Rightarrow> Inr items),
      fetchArtistsByIds = (\<lambda>token ids. Inr [])\<rparr>"

text \<open>One playlist of three tracks; the first credits two artists.\<close>

definition shared_track_library :: provider where
  "shared_track_library =
     mk_library
       [(Some ''p1'',
         [mk_track ''T1'' [mk_artist ''A1'' ''Ann'', mk_artist ''A2'' ''Bob''],
          mk_track ''T2'' [mk_artist ''A1'' ''Ann''],
          mk_track ''T3'' [mk_artist ''A1'' ''Ann'']])]"

text \<open>One playlist of one track that credits the same artist twice.\<close>

definition repeated_credit_library :: provider where
  "repeated_credit_library =
     mk_library [(Some ''p1'', [mk_track ''T1'' [mk_artist ''A1'' ''Ann'', mk_artist ''A1'' ''Ann'']])]"

text \<open>
  Two playlists that share a track, the first holding it twice; a third playlist has
  no identifier.
\<close>

definition three_playlists_library :: provider where
  "three_playlists_library =
     mk_library
       [(Some ''p1'',
         [mk_track ''T1'' [mk_artist ''A1'' ''ann''],
          mk_track ''T1'' [mk_artist ''A1'' ''ann''],
          mk_track ''T2'' [mk_artist ''A2'' ''Bob''],
          None,
          Some \<lparr>track_type = Some ''track'', track_id = None, track_name = Some ''local'',
                track_artists = Some [mk_artist ''A3'' ''Cy'']\<rparr>,
          Some \<lparr>track_type = Some ''episode'', track_id = Some ''E1'', track_name = None,
                track_artists = None\<rparr>]),
        (None, [mk_track ''T9'' [mk_artist ''A9'' ''Zed'']]),
        (Some ''p3'', [mk_track ''T1'' [mk_artist ''A1'' ''ann'']])]"

text \<open>
  Six artists on one track, one of them on a second track; two names differ in case
  only.
\<close>

definition tie_library :: provider where
  "tie_library =
     mk_library
       [(Some ''p1'',
         [mk_track ''T1''
            [mk_artist ''A1'' ''bob'', mk_artist ''A2'' ''Ann'', mk_artist ''A3'' ''ann'',
             mk_artist ''A4'' ''Di'', mk_artist ''A5'' ''Cy'', mk_artist ''A6'' ''Ed''],
          mk_track ''T2'' [mk_artist ''A6'' ''Ed'']])]"

text \<open>The tables that the scan of that library ends with.\<close>

definition tie_tables :: agg where
  "tie_tables =
     \<lparr>uniqueTrackIds = [''T1'', ''T2''],
      artistMap =
        [(''A1'', \<lparr>name = ''bob'', songCount = 1, playlistCount = 1, imageUrl = None\<rparr>),
         (''A2'', \<lparr>name = ''Ann'', songCount = 1, playlistCount = 1, imageUrl = None\<rparr>),
         (''A3'', \<lparr>name = ''ann'', songCount = 1, playlistCount = 1, imageUrl = None\<rparr>),
         (''A4'', \<lparr>name = ''Di'', songCount = 1, playlistCount = 1, imageUrl = None\<rparr>),
         (''A5'', \<lparr>name = ''Cy'', songCount = 1, playlistCount = 1, imageUrl = None\<rparr>),
         (''A6'', \<lparr>name = ''Ed'', songCount = 2, playlistCount = 1, imageUrl = None\<rparr>)],
      trackPlaylistMap =
        [(''T1'', \<lparr>tname = ''T1'', mainArtistId = Some ''A1'', mainArtistName = ''bob'',
                   mainArtistImageUrl = None, tplaylistCount = 1\<rparr>),
         (''T2'', \<lparr>tname = ''T2'', mainArtistId = Some ''A6'', mainArtistName = ''Ed'',
                   mainArtistImageUrl = None, tplaylistCount = 1\<rparr>)]\<rparr>"

definition signed_out :: provider where
  "signed_out = (shared_track_library\<lparr>getAccessToken := None\<rparr>)"

text \<open>
  Comparisons of names made of unaccented ASCII letters. \<open>fold_compare\<close> is the
  comparison without regard to case: two names that differ in case only are level.
  The handler calls \<^verbatim>\<open>localeCompare\<close> with no options, and the default of the runtime's
  collator (sensitivity \<^verbatim>\<open>variant\<close>) compares the letters first, whatever their case, and
  then tells names apart that differ in case only: lower case first under the root
  collation, which is \<open>tiered_compare\<close>, and upper case first under a locale whose
  \<^verbatim>\<open>caseFirst\<close> is \<^verbatim>\<open>upper\<close>, which is \<open>upper_first_compare\<close>.
\<close>

definition lower_ascii :: "char \<Rightarrow> char" where
  "lower_ascii c =
     (if CHR ''A'' \<le> c \<and> c \<le> CHR ''Z'' then char_of (of_char c + (32::nat)) else c)"

definition fold_compare :: "string \<Rightarrow> string \<Rightarrow> int" where
  "fold_compare a b = code_unit_compare (map lower_ascii a) (map lower_ascii b)"

definition tiered_compare :: "string \<Rightarrow> string \<Rightarrow> int" where
  "tiered_compare a b = or_else (fold_compare a b) (code_unit_compare b a)"

definition upper_first_compare :: "string \<Rightarrow> string \<Rightarrow> int" where
  "upper_first_compare a b = or_else (fold_compare a b) (code_unit_compare a b)"


text \<open>
  Six artists on one track, all with one song; their names are \<^verbatim>\<open>same\<close> and \<^verbatim>\<open>Same\<close>,
  and the tables hold them in the order of the credits.
\<close>

definition same_library :: provider where
  "same_library =
     mk_library
       [(Some ''p1'',
         [mk_track ''T1''
            [mk_artist ''B1'' ''same'', mk_artist ''B2'' ''Same'', mk_artist ''B3'' ''Same'',
             mk_artist ''B4'' ''Same'', mk_artist ''B5'' ''Same'', mk_artist ''B6'' ''same'']])]"

definition same_tables :: agg where
  "same_tables =
     \<lparr>uniqueTrackIds = [''T1''],
      artistMap =
        [(''B1'', \<lparr>name = ''same'', songCount = 1, playlistCount = 1, imageUrl = None\<rparr>),
         (''B2'', \<lparr>name = ''Same'', songCount = 1, playlistCount = 1, imageUrl = None\<rparr>),
         (''B3'', \<lparr>name = ''Same'', songCount = 1, playlistCount = 1, imageUrl = None\<rparr>),
         (''B4'', \<lparr>name = ''Same'', songCount = 1, playlistCount = 1, imageUrl = None\<rparr>),
         (''B5'', \<lparr>name = ''Same'', songCount = 1, playlistCount = 1, imageUrl = None\<rparr>),
         (''B6'', \<lparr>name = ''same'', songCount = 1, playlistCount = 1, imageUrl = None\<rparr>)],
      trackPlaylistMap =
        [(''T1'', \<lparr>tname = ''T1'', mainArtistId = Some ''B1'', mainArtistName = ''same'',
                   mainArtistImageUrl = None, tplaylistCount = 1\<rparr>)]\<rparr>"

text \<open>A page that shows the insights of an earlier scan, and a file of another version.\<close>

definition insights_page :: page where
  "insights_page =
     \<lparr>data = Some (JObj [(''totals'', JObj []), (''artists'', JArr [])]),
      error = None, mode = Insights, insightPage = 2,
      decisions = JObj [(''A1'', JBool True)], deckIndex = 1,
      storage = Map.empty\<rparr>"




definition version_2_file :: json where
  "version_2_file =
     JObj [(''version'', JNum 2), (''exportedAt'', JStr ''2026-01-01T00:00:00.000Z''),
           (''data'', JObj [(''totals'', JObj []), (''artists'', JArr [])]),
           (''deckIndex'', JNum 0), (''decisions'', JObj [])]"

section \<open>The tables under one item\<close>

text \<open>
  How the counters of an identifier move when an entry is changed in place or a new
  entry is appended, and what the two passes over the credits of a track do.
\<close>

lemma map_of_modify:
  "map_of (modify k f m) = (map_of m)(k := map_option f (map_of m k))"
  by (induction m) (auto simp: fun_eq_iff)

lemma keys_modify: "map fst (modify k f m) = map fst m"
  by (induction m) auto

lemma set_add_set: "set (set_add x xs) = insert x (set xs)"
  by (auto simp: set_add_def)

lemma set_add_distinct: "distinct xs \<Longrightarrow> distinct (set_add x xs)"
  by (auto simp: set_add_def)

lemma songCount_modify_bump:
  assumes "\<And>r. songCount (f r) = Suc (songCount r)" and "map_of m i = Some r"
  shows "artist_songCount (modify i f m) a = artist_songCount m a + (if a = i then 1 else 0)"
  using assms by (simp add: artist_songCount_def map_of_modify)

lemma songCount_modify_same:
  assumes "\<And>r. songCount (f r) = songCount r"
  shows "artist_songCount (modify i f m) a = artist_songCount m a"
  using assms by (simp add: artist_songCount_def map_of_modify split: option.splits)

lemma songCount_append:
  "map_of m i = None \<Longrightarrow>
   artist_songCount (m @ [(i, r)]) a = (if a = i then songCount r else artist_songCount m a)"
  by (auto simp: artist_songCount_def map_add_def split: option.splits)

lemma playlistCount_modify_same:
  assumes "\<And>r. playlistCount (f r) = playlistCount r"
  shows "artist_playlistCount (modify i f m) a = artist_playlistCount m a"
  using assms by (simp add: artist_playlistCount_def map_of_modify split: option.splits)

lemma playlistCount_append:
  "map_of m i = None \<Longrightarrow>
   artist_playlistCount (m @ [(i, r)]) a =
     (if a = i then playlistCount r else artist_playlistCount m a)"
  by (auto simp: artist_playlistCount_def map_add_def split: option.splits)

lemma playlistCount_modify_bump:
  assumes "\<And>r. playlistCount (f r) = Suc (playlistCount r)" and "i \<in> set (map fst m)"
  shows "artist_playlistCount (modify i f m) a =
     artist_playlistCount m a + (if a = i then 1 else 0)"
proof -
  from assms(2) obtain r where "map_of m i = Some r"
    by (metis map_of_eq_None_iff not_Some_eq set_map)
  then show ?thesis using assms(1) by (simp add: artist_playlistCount_def map_of_modify)
qed

lemma absent_songCount: "map_of m i = None \<Longrightarrow> artist_songCount m i = 0"
  by (simp add: artist_songCount_def)

lemma absent_playlistCount: "map_of m i = None \<Longrightarrow> artist_playlistCount m i = 0"
  by (simp add: artist_playlistCount_def)

(* count_song *)
lemma count_song_songCount:
  "artist_songCount (count_song as m) a =
     artist_songCount m a + count_list (map fst (List.map_filter credit as)) a"
proof (induction as arbitrary: m)
  case Nil
  then show ?case by simp
next
  case (Cons x as)
  show ?case
  proof (cases "credit x")
    case None
    then show ?thesis using Cons.IH by simp
  next
    case (Some p)
    obtain i n where p: "p = (i, n)" by (cases p)
    show ?thesis
    proof (cases "map_of m i")
      case None
      then show ?thesis using Some p
        by (auto simp: Cons.IH songCount_append absent_songCount)
    next
      case (Some r)
      then show ?thesis using \<open>credit x = Some p\<close> p
        by (simp add: Cons.IH songCount_modify_bump)
    qed
  qed
qed

lemma count_song_playlistCount:
  "artist_playlistCount (count_song as m) a = artist_playlistCount m a"
proof (induction as arbitrary: m)
  case Nil
  then show ?case by simp
next
  case (Cons x as)
  show ?case
  proof (cases "credit x")
    case None
    then show ?thesis using Cons.IH by simp
  next
    case (Some p)
    obtain i n where p: "p = (i, n)" by (cases p)
    show ?thesis
    proof (cases "map_of m i")
      case None
      then show ?thesis using Some p
        by (auto simp: Cons.IH playlistCount_append absent_playlistCount)
    next
      case (Some r)
      then show ?thesis using \<open>credit x = Some p\<close> p
        by (simp add: Cons.IH playlistCount_modify_same)
    qed
  qed
qed

lemma count_song_keys_distinct:
  "distinct (map fst m) \<Longrightarrow> distinct (map fst (count_song as m))"
proof (induction as arbitrary: m)
  case Nil
  then show ?case by simp
next
  case (Cons x as)
  show ?case
  proof (cases "credit x")
    case None
    then show ?thesis using Cons by simp
  next
    case (Some p)
    obtain i n where p: "p = (i, n)" by (cases p)
    show ?thesis
    proof (cases "map_of m i")
      case None
      then have "i \<notin> set (map fst m)" by (simp add: map_of_eq_None_iff)
      then show ?thesis using Some p None Cons by simp
    next
      case (Some r)
      then show ?thesis using \<open>credit x = Some p\<close> p Cons by (simp add: keys_modify)
    qed
  qed
qed

lemma count_song_keys_mono:
  "set (map fst m) \<subseteq> set (map fst (count_song as m))"
proof (induction as arbitrary: m)
  case Nil
  then show ?case by simp
next
  case (Cons x as)
  show ?case
  proof (cases "credit x")
    case None
    then show ?thesis using Cons by simp
  next
    case (Some p)
    obtain i n where p: "p = (i, n)" by (cases p)
    show ?thesis
    proof (cases "map_of m i")
      case None
      have "set (map fst m) \<subseteq> set (map fst (m @ [(i, \<lparr>name = n, songCount = 1, playlistCount = 0, imageUrl = None\<rparr>)]))"
        by auto
      also have "\<dots> \<subseteq> set (map fst (count_song as (m @ [(i, \<lparr>name = n, songCount = 1, playlistCount = 0, imageUrl = None\<rparr>)])))"
        by (rule Cons.IH)
      finally show ?thesis using Some p None by simp
    next
      case (Some r)
      have "set (map fst m) = set (map fst (modify i (\<lambda>r. r\<lparr>songCount := songCount r + 1\<rparr>) m))"
        by (simp add: keys_modify)
      also have "\<dots> \<subseteq> set (map fst (count_song as (modify i (\<lambda>r. r\<lparr>songCount := songCount r + 1\<rparr>) m)))"
        by (rule Cons.IH)
      finally show ?thesis using \<open>credit x = Some p\<close> p Some by simp
    qed
  qed
qed

(* note_presence *)
lemma note_presence_songCount:
  "artist_songCount (snd (note_presence as (seen, m))) a = artist_songCount m a"
proof (induction as arbitrary: seen m)
  case Nil
  then show ?case by simp
next
  case (Cons x as)
  show ?case
  proof (cases "credit x")
    case None
    then show ?thesis using Cons.IH by simp
  next
    case (Some p)
    obtain i n where p: "p = (i, n)" by (cases p)
    show ?thesis using Some p
      by (auto simp: Cons.IH songCount_append absent_songCount)
  qed
qed

lemma note_presence_playlistCount:
  "artist_playlistCount (snd (note_presence as (seen, m))) a = artist_playlistCount m a"
proof (induction as arbitrary: seen m)
  case Nil
  then show ?case by simp
next
  case (Cons x as)
  show ?case
  proof (cases "credit x")
    case None
    then show ?thesis using Cons.IH by simp
  next
    case (Some p)
    obtain i n where p: "p = (i, n)" by (cases p)
    show ?thesis using Some p
      by (auto simp: Cons.IH playlistCount_append absent_playlistCount)
  qed
qed

lemma note_presence_keys_distinct:
  "distinct (map fst m) \<Longrightarrow> distinct (map fst (snd (note_presence as (seen, m))))"
proof (induction as arbitrary: seen m)
  case Nil
  then show ?case by simp
next
  case (Cons x as)
  show ?case
  proof (cases "credit x")
    case None
    then show ?thesis using Cons by simp
  next
    case (Some p)
    obtain i n where p: "p = (i, n)" by (cases p)
    show ?thesis using Some p Cons
      by (auto simp: map_of_eq_None_iff)
  qed
qed

lemma note_presence_seen:
  "set (fst (note_presence as (seen, m))) = set seen \<union> set (map fst (List.map_filter credit as))"
proof (induction as arbitrary: seen m)
  case Nil
  then show ?case by simp
next
  case (Cons x as)
  show ?case
  proof (cases "credit x")
    case None
    then show ?thesis using Cons.IH by simp
  next
    case (Some p)
    obtain i n where p: "p = (i, n)" by (cases p)
    show ?thesis using Some p
      by (simp add: Cons.IH set_add_set)
  qed
qed

lemma note_presence_seen_distinct:
  "distinct seen \<Longrightarrow> distinct (fst (note_presence as (seen, m)))"
proof (induction as arbitrary: seen m)
  case Nil
  then show ?case by simp
next
  case (Cons x as)
  show ?case
  proof (cases "credit x")
    case None
    then show ?thesis using Cons by simp
  next
    case (Some p)
    obtain i n where p: "p = (i, n)" by (cases p)
    show ?thesis using Some p Cons
      by (simp add: set_add_distinct)
  qed
qed

lemma note_presence_keys:
  "set seen \<subseteq> set (map fst m) \<Longrightarrow>
   set (fst (note_presence as (seen, m))) \<subseteq> set (map fst (snd (note_presence as (seen, m))))"
proof (induction as arbitrary: seen m)
  case Nil
  then show ?case by simp
next
  case (Cons x as)
  show ?case
  proof (cases "credit x")
    case None
    then show ?thesis using Cons by simp
  next
    case (Some p)
    obtain i n where p: "p = (i, n)" by (cases p)
    have "set (set_add i seen) \<subseteq> set (map fst (if map_of m i = None
              then m @ [(i, \<lparr>name = n, songCount = 0, playlistCount = 0, imageUrl = None\<rparr>)]
              else m))"
      using Cons.prems by (auto simp: set_add_set map_of_eq_None_iff)
    from Cons.IH[OF this] show ?thesis using Some p by simp
  qed
qed

lemma note_presence_keys_mono:
  "set (map fst m) \<subseteq> set (map fst (snd (note_presence as (seen, m))))"
proof (induction as arbitrary: seen m)
  case Nil
  then show ?case by simp
next
  case (Cons x as)
  show ?case
  proof (cases "credit x")
    case None
    then show ?thesis using Cons by simp
  next
    case (Some p)
    obtain i n where p: "p = (i, n)" by (cases p)
    define m' where "m' = (if map_of m i = None
              then m @ [(i, \<lparr>name = n, songCount = 0, playlistCount = 0, imageUrl = None\<rparr>)]
              else m)"
    have "set (map fst m) \<subseteq> set (map fst m')" by (auto simp: m'_def)
    also have "\<dots> \<subseteq> set (map fst (snd (note_presence as (set_add i seen, m'))))"
      by (rule Cons.IH)
    finally show ?thesis using Some p by (simp add: m'_def)
  qed
qed


lemma track_count_append:
  "map_of m i = None \<Longrightarrow>
   track_playlistCount (m @ [(i, r)]) t =
     (if t = i then tplaylistCount r else track_playlistCount m t)"
  by (auto simp: track_playlistCount_def map_add_def split: option.splits)

lemma absent_track_count: "map_of m i = None \<Longrightarrow> track_playlistCount m i = 0"
  by (simp add: track_playlistCount_def)

lemma track_count_modify_bump:
  assumes "\<And>r. tplaylistCount (f r) = Suc (tplaylistCount r)" and "i \<in> set (map fst m)"
  shows "track_playlistCount (modify i f m) t =
     track_playlistCount m t + (if t = i then 1 else 0)"
proof -
  from assms(2) obtain r where "map_of m i = Some r"
    by (metis map_of_eq_None_iff not_Some_eq set_map)
  then show ?thesis using assms(1) by (simp add: track_playlistCount_def map_of_modify)
qed

lemma new_track_rec_count: "tplaylistCount (new_track_rec track) = 0"
  by (simp add: new_track_rec_def Let_def)

lemma process_item_None: "playable it = None \<Longrightarrow> process_item it s = s"
  by (simp add: process_item_def)

lemma process_item_Some:
  assumes "playable it = Some (t, tr)"
  shows "process_item it s =
    (let st = tables s;
         new = (t \<notin> set (uniqueTrackIds st));
         am = (if new then count_song (artists_of tr) (artistMap st) else artistMap st);
         np = note_presence (artists_of tr) (artistIdsInPlaylist s, am)
     in \<lparr>tables = \<lparr>uniqueTrackIds = (if new then uniqueTrackIds st @ [t] else uniqueTrackIds st),
                    artistMap = snd np,
                    trackPlaylistMap =
                      (if map_of (trackPlaylistMap st) t = None
                       then trackPlaylistMap st @ [(t, new_track_rec tr)]
                       else trackPlaylistMap st)\<rparr>,
         artistIdsInPlaylist = fst np,
         trackIdsInPlaylist = set_add t (trackIdsInPlaylist s)\<rparr>)"
  using assms by (simp add: process_item_def Let_def case_prod_beta set_add_def)

lemma process_item_artist_playlistCount:
  "artist_playlistCount (artistMap (tables (process_item it s))) a =
   artist_playlistCount (artistMap (tables s)) a"
proof (cases "playable it")
  case None
  then show ?thesis by (simp add: process_item_None)
next
  case (Some e)
  obtain t tr where e: "e = (t, tr)" by (cases e)
  show ?thesis using Some e
    by (simp add: process_item_Some Let_def note_presence_playlistCount count_song_playlistCount)
qed

lemma process_item_track_playlistCount:
  "track_playlistCount (trackPlaylistMap (tables (process_item it s))) x =
   track_playlistCount (trackPlaylistMap (tables s)) x"
proof (cases "playable it")
  case None
  then show ?thesis by (simp add: process_item_None)
next
  case (Some e)
  obtain t tr where e: "e = (t, tr)" by (cases e)
  show ?thesis using Some e
    by (auto simp: process_item_Some Let_def track_count_append new_track_rec_count
        absent_track_count)
qed

lemma process_item_track_ids:
  "set (trackIdsInPlaylist (process_item it s)) =
   set (trackIdsInPlaylist s) \<union> set (track_ids [it])"
proof (cases "playable it")
  case None
  then show ?thesis by (simp add: process_item_None track_ids_def playable_tracks_def)
next
  case (Some e)
  obtain t tr where e: "e = (t, tr)" by (cases e)
  show ?thesis using Some e
    by (simp add: process_item_Some Let_def set_add_set track_ids_def playable_tracks_def)
qed

lemma process_item_artist_ids:
  "set (artistIdsInPlaylist (process_item it s)) =
   set (artistIdsInPlaylist s) \<union> set (artist_ids [it])"
proof (cases "playable it")
  case None
  then show ?thesis by (simp add: process_item_None artist_ids_def playable_tracks_def)
next
  case (Some e)
  obtain t tr where e: "e = (t, tr)" by (cases e)
  show ?thesis using Some e
    by (simp add: process_item_Some Let_def note_presence_seen artist_ids_def
        playable_tracks_def credits_def)
qed

lemma process_item_unique:
  "set (uniqueTrackIds (tables (process_item it s))) =
   set (uniqueTrackIds (tables s)) \<union> set (track_ids [it])"
proof (cases "playable it")
  case None
  then show ?thesis by (simp add: process_item_None track_ids_def playable_tracks_def)
next
  case (Some e)
  obtain t tr where e: "e = (t, tr)" by (cases e)
  show ?thesis using Some e
    by (auto simp: process_item_Some Let_def track_ids_def playable_tracks_def)
qed

text \<open>What stays true of the loop state of a playlist, item by item.\<close>

lemma process_item_local_ok: "local_ok s \<Longrightarrow> local_ok (process_item it s)"
proof (cases "playable it")
  case None
  assume "local_ok s"
  then show ?thesis using None by (simp add: process_item_None)
next
  case (Some e)
  assume ok: "local_ok s"
  obtain t tr where e: "e = (t, tr)" by (cases e)
  define am where "am = (if t \<notin> set (uniqueTrackIds (tables s))
     then count_song (artists_of tr) (artistMap (tables s)) else artistMap (tables s))"
  have sub: "set (artistIdsInPlaylist s) \<subseteq> set (map fst am)"
    using ok count_song_keys_mono[of "artistMap (tables s)" "artists_of tr"]
    by (auto simp: am_def local_ok_def)
  have 2: "distinct (fst (note_presence (artists_of tr) (artistIdsInPlaylist s, am)))"
    using ok by (simp add: local_ok_def note_presence_seen_distinct)
  have 3: "set (fst (note_presence (artists_of tr) (artistIdsInPlaylist s, am)))
      \<subseteq> set (map fst (snd (note_presence (artists_of tr) (artistIdsInPlaylist s, am))))"
    using sub by (rule note_presence_keys)
  have 4: "distinct (set_add t (trackIdsInPlaylist s))"
    using ok by (simp add: local_ok_def set_add_distinct)
  show ?thesis
    using Some e ok 2 3 4
    by (auto simp: process_item_Some Let_def local_ok_def am_def[symmetric] set_add_set
        map_of_eq_None_iff)
qed

lemma process_item_wf: "wf_agg (tables s) \<Longrightarrow> wf_agg (tables (process_item it s))"
proof (cases "playable it")
  case None
  assume "wf_agg (tables s)"
  then show ?thesis using None by (simp add: process_item_None)
next
  case (Some e)
  assume wf: "wf_agg (tables s)"
  obtain t tr where e: "e = (t, tr)" by (cases e)
  define am where "am = (if t \<notin> set (uniqueTrackIds (tables s))
     then count_song (artists_of tr) (artistMap (tables s)) else artistMap (tables s))"
  have d: "distinct (map fst am)"
    using wf by (simp add: am_def wf_agg_def count_song_keys_distinct)
  have 1: "distinct (map fst (snd (note_presence (artists_of tr) (artistIdsInPlaylist s, am))))"
    using d by (rule note_presence_keys_distinct)
  show ?thesis
    using Some e wf 1
    by (auto simp: process_item_Some Let_def wf_agg_def am_def[symmetric] map_of_eq_None_iff)
qed

lemma process_item_songCount:
  "artist_songCount (artistMap (tables (process_item it s))) a =
   artist_songCount (artistMap (tables s)) a +
     (case playable it of
        None \<Rightarrow> 0
      | Some e \<Rightarrow> if fst e \<in> set (uniqueTrackIds (tables s)) then 0
                  else count_list (map fst (credits (snd e))) a)"
proof (cases "playable it")
  case None
  then show ?thesis by (simp add: process_item_None)
next
  case (Some e)
  obtain t tr where e: "e = (t, tr)" by (cases e)
  show ?thesis using Some e
    by (simp add: process_item_Some Let_def note_presence_songCount count_song_songCount
        credits_def)
qed

lemma process_item_unique_length:
  "length (uniqueTrackIds (tables (process_item it s))) =
   length (uniqueTrackIds (tables s)) +
     (case playable it of
        None \<Rightarrow> 0
      | Some e \<Rightarrow> if fst e \<in> set (uniqueTrackIds (tables s)) then 0 else 1)"
proof (cases "playable it")
  case None
  then show ?thesis by (simp add: process_item_None)
next
  case (Some e)
  obtain t tr where e: "e = (t, tr)" by (cases e)
  show ?thesis using Some e
    by (simp add: process_item_Some Let_def)
qed


section \<open>One playlist\<close>

lemma track_ids_Cons: "track_ids (it # its) = track_ids [it] @ track_ids its"
  by (simp add: track_ids_def playable_tracks_def split: option.splits)

lemma artist_ids_Cons: "artist_ids (it # its) = artist_ids [it] @ artist_ids its"
  by (simp add: artist_ids_def playable_tracks_def split: option.splits)

lemma process_items_wf: "wf_agg (tables s) \<Longrightarrow> wf_agg (tables (process_items items s))"
  by (induction items arbitrary: s) (simp_all add: process_item_wf)

lemma process_items_local_ok: "local_ok s \<Longrightarrow> local_ok (process_items items s)"
  by (induction items arbitrary: s) (simp_all add: process_item_local_ok)

lemma process_items_artist_playlistCount:
  "artist_playlistCount (artistMap (tables (process_items items s))) a =
   artist_playlistCount (artistMap (tables s)) a"
  by (induction items arbitrary: s) (simp_all add: process_item_artist_playlistCount)

lemma process_items_track_playlistCount:
  "track_playlistCount (trackPlaylistMap (tables (process_items items s))) x =
   track_playlistCount (trackPlaylistMap (tables s)) x"
  by (induction items arbitrary: s) (simp_all add: process_item_track_playlistCount)

lemma process_items_track_ids:
  "set (trackIdsInPlaylist (process_items items s)) =
   set (trackIdsInPlaylist s) \<union> set (track_ids items)"
proof (induction items arbitrary: s)
  case Nil
  then show ?case by (simp add: track_ids_def playable_tracks_def)
next
  case (Cons it items)
  show ?case
    by (simp add: Cons.IH process_item_track_ids track_ids_Cons[of it items] Un_assoc)
qed

lemma process_items_artist_ids:
  "set (artistIdsInPlaylist (process_items items s)) =
   set (artistIdsInPlaylist s) \<union> set (artist_ids items)"
proof (induction items arbitrary: s)
  case Nil
  then show ?case by (simp add: artist_ids_def playable_tracks_def)
next
  case (Cons it items)
  show ?case
    by (simp add: Cons.IH process_item_artist_ids artist_ids_Cons[of it items] Un_assoc)
qed

lemma process_items_unique:
  "set (uniqueTrackIds (tables (process_items items s))) =
   set (uniqueTrackIds (tables s)) \<union> set (track_ids items)"
proof (induction items arbitrary: s)
  case Nil
  then show ?case by (simp add: track_ids_def playable_tracks_def)
next
  case (Cons it items)
  show ?case
    by (simp add: Cons.IH process_item_unique track_ids_Cons[of it items] Un_assoc)
qed

lemma distinct_count_le_1: "distinct xs \<Longrightarrow> count_list xs a \<le> 1"
  by (induction xs) (auto simp: count_list_0_iff)

lemma process_item_songs_bounded:
  assumes "songs_bounded (tables s)" and "no_repeated_credit [it]"
  shows "songs_bounded (tables (process_item it s))"
proof (cases "playable it")
  case None
  then show ?thesis using assms by (simp add: process_item_None)
next
  case (Some e)
  have d: "distinct (map fst (credits (snd e)))" using assms(2) Some by simp
  have c: "count_list (map fst (credits (snd e))) a \<le> 1" for a
    using d by (rule distinct_count_le_1)
  show ?thesis
    unfolding songs_bounded_def
  proof
    fix a
    have "artist_songCount (artistMap (tables s)) a \<le> length (uniqueTrackIds (tables s))"
      using assms(1) by (simp add: songs_bounded_def)
    then show "artist_songCount (artistMap (tables (process_item it s))) a
        \<le> length (uniqueTrackIds (tables (process_item it s)))"
      using c[of a] Some by (simp add: process_item_songCount process_item_unique_length)
  qed
qed

lemma process_items_songs_bounded:
  "songs_bounded (tables s) \<Longrightarrow> no_repeated_credit items \<Longrightarrow>
   songs_bounded (tables (process_items items s))"
proof (induction items arbitrary: s)
  case Nil
  then show ?case by simp
next
  case (Cons it items)
  have "songs_bounded (tables (process_item it s))"
    using Cons.prems by (intro process_item_songs_bounded) simp_all
  then show ?case using Cons by simp
qed

lemma bump_artists_count:
  "distinct ids \<Longrightarrow> set ids \<subseteq> set (map fst m) \<Longrightarrow>
   artist_playlistCount (bump_artists ids m) a =
     artist_playlistCount m a + (if a \<in> set ids then 1 else 0)"
proof (induction ids arbitrary: m)
  case Nil
  then show ?case by simp
next
  case (Cons i ids)
  have k: "set ids \<subseteq> set (map fst (modify i (\<lambda>r. r\<lparr>playlistCount := playlistCount r + 1\<rparr>) m))"
    using Cons.prems by (simp add: keys_modify)
  have i: "i \<in> set (map fst m)" using Cons.prems by simp
  show ?case
    using Cons.prems Cons.IH[OF _ k] playlistCount_modify_bump[OF _ i, of "\<lambda>r. r\<lparr>playlistCount := playlistCount r + 1\<rparr>" a]
    by auto
qed

lemma bump_tracks_count:
  "distinct ids \<Longrightarrow> set ids \<subseteq> set (map fst m) \<Longrightarrow>
   track_playlistCount (bump_tracks ids m) t =
     track_playlistCount m t + (if t \<in> set ids then 1 else 0)"
proof (induction ids arbitrary: m)
  case Nil
  then show ?case by simp
next
  case (Cons i ids)
  have k: "set ids \<subseteq> set (map fst (modify i (\<lambda>r. r\<lparr>tplaylistCount := tplaylistCount r + 1\<rparr>) m))"
    using Cons.prems by (simp add: keys_modify)
  have i: "i \<in> set (map fst m)" using Cons.prems by simp
  show ?case
    using Cons.prems Cons.IH[OF _ k] track_count_modify_bump[OF _ i, of "\<lambda>r. r\<lparr>tplaylistCount := tplaylistCount r + 1\<rparr>" t]
    by auto
qed

lemma bump_artists_keys: "map fst (bump_artists ids m) = map fst m"
  by (induction ids arbitrary: m) (simp_all add: keys_modify)

lemma bump_tracks_keys: "map fst (bump_tracks ids m) = map fst m"
  by (induction ids arbitrary: m) (simp_all add: keys_modify)

lemma bump_artists_songCount:
  "artist_songCount (bump_artists ids m) a = artist_songCount m a"
  by (induction ids arbitrary: m) (simp_all add: songCount_modify_same)

lemma local_start:
  "local_ok \<lparr>tables = st, artistIdsInPlaylist = [], trackIdsInPlaylist = []\<rparr>"
  by (simp add: local_ok_def)

lemma process_playlist_wf: "wf_agg st \<Longrightarrow> wf_agg (process_playlist st items)"
  using process_items_wf[of "\<lparr>tables = st, artistIdsInPlaylist = [], trackIdsInPlaylist = []\<rparr>" items]
  by (simp add: process_playlist_def Let_def wf_agg_def bump_artists_keys bump_tracks_keys)

lemma process_playlist_track_count:
  "track_playlistCount (trackPlaylistMap (process_playlist st items)) t =
     track_playlistCount (trackPlaylistMap st) t + (if t \<in> set (track_ids items) then 1 else 0)"
proof -
  let ?s = "process_items items \<lparr>tables = st, artistIdsInPlaylist = [], trackIdsInPlaylist = []\<rparr>"
  have ok: "local_ok ?s" by (intro process_items_local_ok local_start)
  have "track_playlistCount (bump_tracks (trackIdsInPlaylist ?s) (trackPlaylistMap (tables ?s))) t
      = track_playlistCount (trackPlaylistMap (tables ?s)) t
        + (if t \<in> set (trackIdsInPlaylist ?s) then 1 else 0)"
    using ok by (intro bump_tracks_count) (simp_all add: local_ok_def)
  then show ?thesis
    by (simp add: process_playlist_def Let_def process_items_track_playlistCount
        process_items_track_ids)
qed

lemma process_playlist_artist_count:
  "artist_playlistCount (artistMap (process_playlist st items)) a =
     artist_playlistCount (artistMap st) a + (if a \<in> set (artist_ids items) then 1 else 0)"
proof -
  let ?s = "process_items items \<lparr>tables = st, artistIdsInPlaylist = [], trackIdsInPlaylist = []\<rparr>"
  have ok: "local_ok ?s" by (intro process_items_local_ok local_start)
  have "artist_playlistCount (bump_artists (artistIdsInPlaylist ?s) (artistMap (tables ?s))) a
      = artist_playlistCount (artistMap (tables ?s)) a
        + (if a \<in> set (artistIdsInPlaylist ?s) then 1 else 0)"
    using ok by (intro bump_artists_count) (simp_all add: local_ok_def)
  then show ?thesis
    by (simp add: process_playlist_def Let_def process_items_artist_playlistCount
        process_items_artist_ids)
qed

lemma process_playlist_unique:
  "set (uniqueTrackIds (process_playlist st items)) =
   set (uniqueTrackIds st) \<union> set (track_ids items)"
  by (simp add: process_playlist_def Let_def process_items_unique)

lemma process_playlist_songs_bounded:
  assumes "songs_bounded st" and "no_repeated_credit items"
  shows "songs_bounded (process_playlist st items)"
proof -
  let ?s = "process_items items \<lparr>tables = st, artistIdsInPlaylist = [], trackIdsInPlaylist = []\<rparr>"
  have "songs_bounded (tables ?s)" using assms by (intro process_items_songs_bounded) simp_all
  then show ?thesis
    by (simp add: process_playlist_def Let_def songs_bounded_def bump_artists_songCount)
qed


lemma process_item_unique_distinct: 
  "distinct (uniqueTrackIds (tables s)) \<Longrightarrow> distinct (uniqueTrackIds (tables (process_item it s)))"
proof (cases "playable it")
  case None
  assume "distinct (uniqueTrackIds (tables s))"
  then show ?thesis using None by (simp add: process_item_None)
next
  case (Some e)
  assume "distinct (uniqueTrackIds (tables s))"
  moreover obtain t tr where e: "e = (t, tr)" by (cases e)
  ultimately show ?thesis using Some
    by (simp add: process_item_Some Let_def)
qed

lemma process_items_unique_distinct: 
  "distinct (uniqueTrackIds (tables s)) \<Longrightarrow> distinct (uniqueTrackIds (tables (process_items items s)))"
  by (induction items arbitrary: s) (simp_all add: process_item_unique_distinct)

lemma process_playlist_unique_distinct:
  "distinct (uniqueTrackIds st) \<Longrightarrow> distinct (uniqueTrackIds (process_playlist st items))"
  using process_items_unique_distinct[of "\<lparr>tables = st, artistIdsInPlaylist = [], trackIdsInPlaylist = []\<rparr>" items]
  by (simp add: process_playlist_def Let_def)

section \<open>The loop over the playlists\<close>

lemma fold_wf: "wf_agg st \<Longrightarrow> wf_agg (foldl process_playlist st ls)"
  by (induction ls arbitrary: st) (simp_all add: process_playlist_wf)

lemma fold_track_count:
  "track_playlistCount (trackPlaylistMap (foldl process_playlist st ls)) t =
   track_playlistCount (trackPlaylistMap st) t
     + length (filter (\<lambda>items. t \<in> set (track_ids items)) ls)"
  by (induction ls arbitrary: st) (simp_all add: process_playlist_track_count)

lemma fold_artist_count:
  "artist_playlistCount (artistMap (foldl process_playlist st ls)) a =
   artist_playlistCount (artistMap st) a
     + length (filter (\<lambda>items. a \<in> set (artist_ids items)) ls)"
  by (induction ls arbitrary: st) (simp_all add: process_playlist_artist_count)

lemma track_ids_Nil: "track_ids [] = []"
  by (simp add: track_ids_def playable_tracks_def)

lemma track_ids_append: "track_ids (xs @ ys) = track_ids xs @ track_ids ys"
  by (simp add: track_ids_def playable_tracks_def List.map_filter_def)

lemma fold_unique:
  "set (uniqueTrackIds (foldl process_playlist st ls)) =
   set (uniqueTrackIds st) \<union> set (track_ids (concat ls))"
  by (induction ls arbitrary: st) (auto simp: process_playlist_unique track_ids_append track_ids_Nil)

lemma fold_unique_distinct:
  "distinct (uniqueTrackIds st) \<Longrightarrow> distinct (uniqueTrackIds (foldl process_playlist st ls))"
  by (induction ls arbitrary: st) (simp_all add: process_playlist_unique_distinct)

lemma fold_songs_bounded:
  "songs_bounded st \<Longrightarrow> list_all no_repeated_credit ls \<Longrightarrow>
   songs_bounded (foldl process_playlist st ls)"
  by (induction ls arbitrary: st) (simp_all add: process_playlist_songs_bounded)

lemma scan_playlists_result:
  "scan_playlists P token pls calls st = (calls', Inr st') \<Longrightarrow>
   st' = foldl process_playlist st (fetched P token pls)"
proof (induction pls arbitrary: calls st)
  case Nil
  then show ?case by simp
next
  case (Cons pl pls)
  show ?case
  proof (cases "truthy (id_of_playlist pl)")
    case False
    then show ?thesis using Cons by simp
  next
    case True
    show ?thesis
    proof (cases "fetchAllPlaylistTracks P token (the (id_of_playlist pl))")
      case (Inl e)
      then show ?thesis using True Cons.prems by (simp add: Let_def)
    next
      case (Inr items)
      then show ?thesis using True Cons.prems Cons.IH by (simp add: Let_def)
    qed
  qed
qed

lemma fetched_length: "length (fetched P token pls) \<le> length pls"
  by (induction pls) (auto split: sum.splits)





section \<open>The song counts of all artists together\<close>

lemma total_modify_same:
  assumes "\<And>r. songCount (f r) = songCount r"
  shows "total_songs (modify k f m) = total_songs m"
  using assms by (induction m) (auto simp: total_songs_def)

lemma total_modify_bump:
  assumes "\<And>r. songCount (f r) = Suc (songCount r)" and "map_of m k = Some r"
  shows "total_songs (modify k f m) = Suc (total_songs m)"
  using assms(2)
proof (induction m)
  case Nil
  then show ?case by simp
next
  case (Cons e m)
  obtain k' v where e: "e = (k', v)" by (cases e)
  show ?case
  proof (cases "k' = k")
    case True
    then show ?thesis using e assms(1) by (simp add: total_songs_def)
  next
    case False
    then have "map_of m k = Some r" using Cons.prems e by simp
    then have "total_songs (modify k f m) = Suc (total_songs m)" by (rule Cons.IH)
    then show ?thesis using False e by (simp add: total_songs_def)
  qed
qed

lemma total_append: "total_songs (m @ [(k, r)]) = total_songs m + songCount r"
  by (simp add: total_songs_def)

lemma count_song_total:
  "total_songs (count_song as m) = total_songs m + length (List.map_filter credit as)"
proof (induction as arbitrary: m)
  case Nil
  then show ?case by simp
next
  case (Cons x as)
  show ?case
  proof (cases "credit x")
    case None
    then show ?thesis using Cons.IH by simp
  next
    case (Some p)
    obtain i n where p: "p = (i, n)" by (cases p)
    show ?thesis
    proof (cases "map_of m i")
      case None
      then show ?thesis using Some p by (simp add: Cons.IH total_append)
    next
      case (Some r)
      then show ?thesis using \<open>credit x = Some p\<close> p
        by (simp add: Cons.IH total_modify_bump)
    qed
  qed
qed

lemma note_presence_total:
  "total_songs (snd (note_presence as (seen, m))) = total_songs m"
proof (induction as arbitrary: seen m)
  case Nil
  then show ?case by simp
next
  case (Cons x as)
  show ?case
  proof (cases "credit x")
    case None
    then show ?thesis using Cons.IH by simp
  next
    case (Some p)
    obtain i n where p: "p = (i, n)" by (cases p)
    show ?thesis using Some p by (simp add: Cons.IH total_append)
  qed
qed

lemma process_item_total:
  "total_songs (artistMap (tables (process_item it s))) =
   total_songs (artistMap (tables s)) +
     (case playable it of
        None \<Rightarrow> 0
      | Some e \<Rightarrow> if fst e \<in> set (uniqueTrackIds (tables s)) then 0
                  else length (credits (snd e)))"
proof (cases "playable it")
  case None
  then show ?thesis by (simp add: process_item_None)
next
  case (Some e)
  obtain t tr where e: "e = (t, tr)" by (cases e)
  show ?thesis using Some e
    by (simp add: process_item_Some Let_def note_presence_total count_song_total credits_def)
qed

lemma process_item_total_bounded:
  assumes "total_songs (artistMap (tables s)) \<le> length (uniqueTrackIds (tables s))"
    and "single_credit [it]"
  shows "total_songs (artistMap (tables (process_item it s)))
           \<le> length (uniqueTrackIds (tables (process_item it s)))"
proof (cases "playable it")
  case None
  then show ?thesis using assms by (simp add: process_item_None)
next
  case (Some e)
  have "length (credits (snd e)) \<le> 1" using assms(2) Some by simp
  then show ?thesis
    using assms(1) Some by (simp add: process_item_total process_item_unique_length)
qed

lemma process_items_total_bounded:
  "total_songs (artistMap (tables s)) \<le> length (uniqueTrackIds (tables s)) \<Longrightarrow>
   single_credit items \<Longrightarrow>
   total_songs (artistMap (tables (process_items items s)))
     \<le> length (uniqueTrackIds (tables (process_items items s)))"
proof (induction items arbitrary: s)
  case Nil
  then show ?case by simp
next
  case (Cons it items)
  have "total_songs (artistMap (tables (process_item it s)))
           \<le> length (uniqueTrackIds (tables (process_item it s)))"
    using Cons.prems by (intro process_item_total_bounded) simp_all
  then show ?case using Cons by simp
qed

lemma bump_artists_total: "total_songs (bump_artists ids m) = total_songs m"
  by (induction ids arbitrary: m) (simp_all add: total_modify_same)

lemma process_playlist_total_bounded:
  assumes "total_songs (artistMap st) \<le> length (uniqueTrackIds st)" and "single_credit items"
  shows "total_songs (artistMap (process_playlist st items))
           \<le> length (uniqueTrackIds (process_playlist st items))"
proof -
  let ?s = "process_items items \<lparr>tables = st, artistIdsInPlaylist = [], trackIdsInPlaylist = []\<rparr>"
  have "total_songs (artistMap (tables ?s)) \<le> length (uniqueTrackIds (tables ?s))"
    using assms by (intro process_items_total_bounded) simp_all
  then show ?thesis
    by (simp add: process_playlist_def Let_def bump_artists_total)
qed

lemma fold_total_bounded:
  "total_songs (artistMap st) \<le> length (uniqueTrackIds st) \<Longrightarrow> list_all single_credit ls \<Longrightarrow>
   total_songs (artistMap (foldl process_playlist st ls))
     \<le> length (uniqueTrackIds (foldl process_playlist st ls))"
  by (induction ls arbitrary: st) (simp_all add: process_playlist_total_bounded)

section \<open>The stable sort\<close>



lemma set_insert_by: "set (insert_by c x ys) = insert x (set ys)"
  by (induction ys) auto

lemma set_sort_by: "set (sort_by c xs) = set xs"
  by (induction xs) (simp_all add: set_insert_by)

lemma length_insert_by: "length (insert_by c x ys) = Suc (length ys)"
  by (induction ys) auto

lemma length_sort_by: "length (sort_by c xs) = length xs"
  by (induction xs) (simp_all add: length_insert_by)






section \<open>The tables behind a snapshot\<close>

lemma GET_success:
  assumes "snapshot_of (GET lc P) = Some s"
  obtains calls calls' st' where
    "truthy (getAccessToken P)"
    "fetchAllPlaylists P (the (getAccessToken P)) = Inr (listed P)"
    "enrich P (the (getAccessToken P)) calls (foldl process_playlist empty_agg (scanned P))
       = (calls', Inr st')"
    "s = build_snapshot lc (length (listed P)) st'"
proof -
  have t: "truthy (getAccessToken P)"
    using assms by (auto simp: GET_def Let_def split: if_splits)
  obtain pls where pls: "fetchAllPlaylists P (the (getAccessToken P)) = Inr pls"
    using assms t by (cases "fetchAllPlaylists P (the (getAccessToken P))")
      (auto simp: GET_def Let_def)
  have l: "listed P = pls" using t pls by (simp add: listed_def)
  obtain calls r where sc: "scan_playlists P (the (getAccessToken P)) pls
      [GetAccessToken, FetchAllPlaylists (the (getAccessToken P))] empty_agg = (calls, r)"
    by (cases "scan_playlists P (the (getAccessToken P)) pls
      [GetAccessToken, FetchAllPlaylists (the (getAccessToken P))] empty_agg")
  obtain st where st: "r = Inr st"
    using assms t pls sc by (cases r) (auto simp: GET_def Let_def)
  have st_eq: "st = foldl process_playlist empty_agg (scanned P)"
    using scan_playlists_result[OF sc[unfolded st]] l by (simp add: scanned_def)
  obtain calls' r' where en: "enrich P (the (getAccessToken P)) calls st = (calls', r')"
    by (cases "enrich P (the (getAccessToken P)) calls st")
  obtain st' where st': "r' = Inr st'"
    using assms t pls sc st en by (cases r') (auto simp: GET_def Let_def)
  have "s = build_snapshot lc (length pls) st'"
    using assms t pls sc st en st' by (simp add: GET_def Let_def)
  then show ?thesis
    using that[of calls calls' st'] t pls l en st' st_eq by simp
qed

lemma fill_images_unique: "uniqueTrackIds (fill_images g st) = uniqueTrackIds st"
  by (simp add: fill_images_def)

lemma map_of_fill:
  "map_of (map (\<lambda>(k, r). (k, f k r)) m) k = map_option (f k) (map_of m k)"
  by (induction m) auto

lemma fill_images_keys: "map fst (artistMap (fill_images g st)) = map fst (artistMap st)"
  by (simp add: fill_images_def case_prod_beta comp_def)

lemma fill_images_track_keys:
  "map fst (trackPlaylistMap (fill_images g st)) = map fst (trackPlaylistMap st)"
  by (simp add: fill_images_def case_prod_beta comp_def)

lemma fill_images_songCount:
  "artist_songCount (artistMap (fill_images g st)) a = artist_songCount (artistMap st) a"
  by (simp add: fill_images_def artist_songCount_def map_of_fill split: option.splits)

lemma fill_images_playlistCount:
  "artist_playlistCount (artistMap (fill_images g st)) a =
   artist_playlistCount (artistMap st) a"
  by (simp add: fill_images_def artist_playlistCount_def map_of_fill split: option.splits)

lemma fill_images_track_count:
  "track_playlistCount (trackPlaylistMap (fill_images g st)) t =
   track_playlistCount (trackPlaylistMap st) t"
  by (simp add: fill_images_def track_playlistCount_def map_of_fill split: option.splits)

lemma fill_images_total: "total_songs (artistMap (fill_images g st)) = total_songs (artistMap st)"
  by (simp add: fill_images_def total_songs_def case_prod_beta comp_def)

lemma enrich_total:
  assumes "enrich P token calls st = (calls', Inr st')"
  shows "total_songs (artistMap st') = total_songs (artistMap st)"
  using assms
  by (auto simp: enrich_def Let_def fill_images_total split: if_splits sum.splits)

lemma enrich_result:
  assumes "enrich P token calls st = (calls', Inr st')"
  shows "uniqueTrackIds st' = uniqueTrackIds st"
    and "map fst (artistMap st') = map fst (artistMap st)"
    and "map fst (trackPlaylistMap st') = map fst (trackPlaylistMap st)"
    and "artist_songCount (artistMap st') a = artist_songCount (artistMap st) a"
    and "artist_playlistCount (artistMap st') a = artist_playlistCount (artistMap st) a"
    and "track_playlistCount (trackPlaylistMap st') t = track_playlistCount (trackPlaylistMap st) t"
  using assms
  by (auto simp: enrich_def Let_def fill_images_unique fill_images_keys fill_images_track_keys
      fill_images_songCount fill_images_playlistCount fill_images_track_count
      split: if_splits sum.splits)

lemma empty_agg_wf: "wf_agg empty_agg"
  by (simp add: wf_agg_def empty_agg_def)

lemma empty_agg_songs_bounded: "songs_bounded empty_agg"
  by (simp add: songs_bounded_def empty_agg_def artist_songCount_def)

lemma empty_counts:
  "artist_playlistCount (artistMap empty_agg) a = 0"
  "track_playlistCount (trackPlaylistMap empty_agg) t = 0"
  "artist_songCount (artistMap empty_agg) a = 0"
  by (simp_all add: empty_agg_def artist_playlistCount_def track_playlistCount_def
      artist_songCount_def)

lemma entry_songCount:
  "distinct (map fst m) \<Longrightarrow> (k, r) \<in> set m \<Longrightarrow> artist_songCount m k = songCount r"
  by (simp add: artist_songCount_def)

lemma entry_playlistCount:
  "distinct (map fst m) \<Longrightarrow> (k, r) \<in> set m \<Longrightarrow> artist_playlistCount m k = playlistCount r"
  by (simp add: artist_playlistCount_def)

lemma entry_track_count:
  "distinct (map fst m) \<Longrightarrow> (k, r) \<in> set m \<Longrightarrow> track_playlistCount m k = tplaylistCount r"
  by (simp add: track_playlistCount_def)

text \<open>What a successful scan leaves in the tables the snapshot is built from.\<close>

lemma GET_tables:
  assumes "snapshot_of (GET lc P) = Some s"
  obtains st' where
    "s = build_snapshot lc (length (listed P)) st'"
    "distinct (map fst (artistMap st'))"
    "distinct (uniqueTrackIds st')"
    "set (uniqueTrackIds st') = set (track_ids (concat (scanned P)))"
    "\<And>a. artist_playlistCount (artistMap st') a =
       length (filter (\<lambda>items. a \<in> set (artist_ids items)) (scanned P))"
    "\<And>t. track_playlistCount (trackPlaylistMap st') t =
       length (filter (\<lambda>items. t \<in> set (track_ids items)) (scanned P))"
    "list_all no_repeated_credit (scanned P) \<Longrightarrow> songs_bounded st'"
    "distinct (map fst (trackPlaylistMap st'))"
    "list_all single_credit (scanned P) \<Longrightarrow>
       total_songs (artistMap st') \<le> length (uniqueTrackIds st')"
proof -
  from assms obtain calls calls' st' where
    s: "s = build_snapshot lc (length (listed P)) st'" and
    en: "enrich P (the (getAccessToken P)) calls (foldl process_playlist empty_agg (scanned P))
       = (calls', Inr st')"
    by (rule GET_success)
  let ?st = "foldl process_playlist empty_agg (scanned P)"
  note r = enrich_result[OF en]
  have wf: "wf_agg ?st" by (intro fold_wf empty_agg_wf)
  have 1: "distinct (map fst (artistMap st'))" using wf r(2) by (simp add: wf_agg_def)
  have 2: "distinct (uniqueTrackIds st')" using wf r(1) by (simp add: wf_agg_def)
  have 3: "set (uniqueTrackIds st') = set (track_ids (concat (scanned P)))"
    using r(1) by (simp add: fold_unique empty_agg_def)
  have 4: "artist_playlistCount (artistMap st') a =
       length (filter (\<lambda>items. a \<in> set (artist_ids items)) (scanned P))" for a
    using r(5)[of a] by (simp add: fold_artist_count empty_counts)
  have 5: "track_playlistCount (trackPlaylistMap st') t =
       length (filter (\<lambda>items. t \<in> set (track_ids items)) (scanned P))" for t
    using r(6)[of t] by (simp add: fold_track_count empty_counts)
  have 6: "songs_bounded st'" if "list_all no_repeated_credit (scanned P)"
  proof -
    have "songs_bounded ?st" using that by (intro fold_songs_bounded empty_agg_songs_bounded)
    then show ?thesis using r(1) r(4) by (simp add: songs_bounded_def)
  qed
  have 7: "distinct (map fst (trackPlaylistMap st'))" using wf r(3) by (simp add: wf_agg_def)
  have 8: "total_songs (artistMap st') \<le> length (uniqueTrackIds st')"
    if "list_all single_credit (scanned P)"
  proof -
    have "total_songs (artistMap ?st) \<le> length (uniqueTrackIds ?st)"
      using that by (intro fold_total_bounded) (simp_all add: empty_agg_def total_songs_def)
    then show ?thesis using r(1) enrich_total[OF en] by simp
  qed
  show ?thesis using that[of st'] s 1 2 3 4 5 6 7 8 by blast
qed

lemma totals_build:
  "totals (build_snapshot lc n st) =
     \<lparr>totalPlaylists = n, totalArtists = length (artistMap st),
      totalUniqueTracks = length (uniqueTrackIds st)\<rparr>"
  by (simp add: build_snapshot_def Let_def sorted_artists_def length_sort_by)

lemma set_sorted_artists: "set (sorted_artists lc st) = to_ArtistAgg ` set (artistMap st)"
  by (simp add: sorted_artists_def set_sort_by)

lemma artistTable_build:
  "artistTable (build_snapshot lc n st) =
     map (table_row (length (uniqueTrackIds st)) n) (sorted_artists lc st)"
  by (simp add: build_snapshot_def Let_def)

lemma track_ids_set:
  "set (track_ids items) =
     {i. \<exists>t. Some t \<in> set items \<and> track_type t = Some ''track'' \<and> track_id t = Some i \<and> i \<noteq> []}"
proof (induction items)
  case Nil
  then show ?case by (simp add: track_ids_Nil)
next
  case (Cons it items)
  have "set (track_ids [it]) =
     {i. \<exists>t. it = Some t \<and> track_type t = Some ''track'' \<and> track_id t = Some i \<and> i \<noteq> []}"
  proof (cases it)
    case None
    then show ?thesis by (simp add: track_ids_def playable_tracks_def)
  next
    case (Some t)
    then show ?thesis
      by (cases "track_id t") (auto simp: track_ids_def playable_tracks_def)
  qed
  then show ?case
    using Cons.IH track_ids_Cons[of it items] by auto
qed

section \<open>The claims on the scan\<close>

text \<open>
  Claim C4. After every scan that answers with a snapshot, \<open>totalUniqueTracks\<close> is the
  number of distinct track identifiers among the playable items of the playlists that
  were fetched. An item counts only if it has a track payload of type \<^verbatim>\<open>track\<close> with
  a non-empty identifier; local files, items without identifier and other kinds of
  item add nothing.
\<close>

theorem total_unique_tracks:
  assumes "snapshot_of (GET lc P) = Some s"
  shows "totalUniqueTracks (totals s) = card (set (track_ids (concat (scanned P)))) \<and>
         set (track_ids (concat (scanned P))) =
           {i. \<exists>t. Some t \<in> set (concat (scanned P)) \<and> track_type t = Some ''track'' \<and>
                    track_id t = Some i \<and> i \<noteq> []}"
proof -
  from assms obtain st' where
    s: "s = build_snapshot lc (length (listed P)) st'" and
    d: "distinct (uniqueTrackIds st')" and
    u: "set (uniqueTrackIds st') = set (track_ids (concat (scanned P)))"
    by (rule GET_tables)
  have "totalUniqueTracks (totals s) = length (uniqueTrackIds st')"
    by (simp add: s totals_build)
  also have "\<dots> = card (set (uniqueTrackIds st'))"
    using d by (simp add: distinct_card)
  finally show ?thesis using u track_ids_set by simp
qed

text \<open>The snapshot of the library of three playlists.\<close>

lemma three_playlists_snapshot:
  "snapshot_of (GET tiered_compare three_playlists_library) =
   Some \<lparr>totals = \<lparr>totalPlaylists = 3, totalArtists = 2, totalUniqueTracks = 2\<rparr>,
         topArtistsBySongs =
           [\<lparr>ta_artistId = ''A1'', ta_artistName = ''ann'', ta_imageUrl = None,
             ta_value = 1, ta_percent = 50\<rparr>,
            \<lparr>ta_artistId = ''A2'', ta_artistName = ''Bob'', ta_imageUrl = None,
             ta_value = 1, ta_percent = 50\<rparr>],
         topArtistsByPlaylists =
           [\<lparr>ta_artistId = ''A1'', ta_artistName = ''ann'', ta_imageUrl = None,
             ta_value = 2, ta_percent = 200 / 3\<rparr>,
            \<lparr>ta_artistId = ''A2'', ta_artistName = ''Bob'', ta_imageUrl = None,
             ta_value = 1, ta_percent = 100 / 3\<rparr>],
         topTracksByPlaylists =
           [\<lparr>tt_trackId = ''T1'', tt_trackName = ''T1'', tt_mainArtistId = Some ''A1'',
             tt_mainArtistName = ''ann'', tt_mainArtistImageUrl = None,
             tt_playlistCount = 2, tt_percent = 200 / 3\<rparr>,
            \<lparr>tt_trackId = ''T2'', tt_trackName = ''T2'', tt_mainArtistId = Some ''A2'',
             tt_mainArtistName = ''Bob'', tt_mainArtistImageUrl = None,
             tt_playlistCount = 1, tt_percent = 100 / 3\<rparr>],
         artistTable =
           [\<lparr>ar_artistId = ''A1'', ar_artistName = ''ann'', ar_imageUrl = None,
             ar_songCount = 1, ar_songPercent = 50, ar_playlistCount = 2,
             ar_playlistPercent = 200 / 3\<rparr>,
            \<lparr>ar_artistId = ''A2'', ar_artistName = ''Bob'', ar_imageUrl = None,
             ar_songCount = 1, ar_songPercent = 50, ar_playlistCount = 1,
             ar_playlistPercent = 100 / 3\<rparr>],
         artists =
           [\<lparr>di_artistId = ''A1'', di_artistName = ''ann'', di_imageUrl = None,
             di_trackCount = 1\<rparr>,
            \<lparr>di_artistId = ''A2'', di_artistName = ''Bob'', di_imageUrl = None,
             di_trackCount = 1\<rparr>]\<rparr>"
  by code_simp

theorem total_unique_tracks_witness:
  "totalUniqueTracks (totals (the (snapshot_of (GET tiered_compare three_playlists_library)))) = 2 \<and>
   card (set (track_ids (concat (scanned three_playlists_library)))) = 2"
proof -
  have t: "track_ids (concat (scanned three_playlists_library)) = [''T1'', ''T1'', ''T2'', ''T1'']"
    by code_simp
  show ?thesis
    using total_unique_tracks[OF three_playlists_snapshot, THEN conjunct1]
    by (simp add: three_playlists_snapshot t)
qed

lemma top_songs_build:
  "topArtistsBySongs (build_snapshot lc n st) =
     map (top_by_songs (length (uniqueTrackIds st)))
       (take 5 (sort_by (by_songs lc) (sorted_artists lc st)))"
  by (simp add: build_snapshot_def Let_def)

lemma top_tracks_build:
  "topTracksByPlaylists (build_snapshot lc n st) =
     map (top_track n)
       (take 5 (sort_by (tracks_by_playlists lc)
                  (map to_TrackPlaylistAgg (trackPlaylistMap st))))"
  by (simp add: build_snapshot_def Let_def)

lemma in_take: "x \<in> set (take k xs) \<Longrightarrow> x \<in> set xs"
  by (rule in_set_takeD)

text \<open>Every row of the artist table is an entry of the artist map.\<close>

lemma table_row_entry:
  assumes "row \<in> set (artistTable (build_snapshot lc n st))"
  obtains k r where "(k, r) \<in> set (artistMap st)" "ar_artistId row = k"
    "ar_songCount row = songCount r" "ar_playlistCount row = playlistCount r"
proof -
  from assms obtain a where a: "a \<in> set (sorted_artists lc st)"
    and row: "row = table_row (length (uniqueTrackIds st)) n a"
    by (auto simp: artistTable_build)
  from a obtain k r where kr: "(k, r) \<in> set (artistMap st)" and "a = to_ArtistAgg (k, r)"
    by (auto simp: set_sorted_artists)
  then show ?thesis using that[of k r] row by (simp add: table_row_def to_ArtistAgg_def)
qed

lemma top_songs_entry:
  assumes "e \<in> set (topArtistsBySongs (build_snapshot lc n st))"
  obtains k r where "(k, r) \<in> set (artistMap st)" "ta_artistId e = k"
    "ta_value e = songCount r" "ta_percent e = pct (songCount r) (length (uniqueTrackIds st))"
proof -
  from assms obtain a where a: "a \<in> set (sorted_artists lc st)"
    and e: "e = top_by_songs (length (uniqueTrackIds st)) a"
    by (auto simp: top_songs_build set_sort_by dest!: in_take)
  from a obtain k r where kr: "(k, r) \<in> set (artistMap st)" and "a = to_ArtistAgg (k, r)"
    by (auto simp: set_sorted_artists)
  then show ?thesis using that[of k r] e by (simp add: top_by_songs_def to_ArtistAgg_def)
qed

lemma top_tracks_entry:
  assumes "e \<in> set (topTracksByPlaylists (build_snapshot lc n st))"
  obtains k r where "(k, r) \<in> set (trackPlaylistMap st)" "tt_trackId e = k"
    "tt_playlistCount e = tplaylistCount r"
proof -
  from assms obtain a where a: "a \<in> set (map to_TrackPlaylistAgg (trackPlaylistMap st))"
    and e: "e = top_track n a"
    by (auto simp: top_tracks_build set_sort_by dest!: in_take)
  from a obtain k r where kr: "(k, r) \<in> set (trackPlaylistMap st)"
    and "a = to_TrackPlaylistAgg (k, r)"
    by auto
  then show ?thesis using that[of k r] e by (simp add: top_track_def to_TrackPlaylistAgg_def)
qed

text \<open>
  Claim C3. Processing one playlist adds exactly one to the playlist count of every
  track and of every artist that occurs in it, however often it occurs, and nothing to
  any other; so over any run of playlists a counter grows by the number of playlists
  that hold the identifier. In the snapshot of a scan the playlist count of every
  artist row and of every ranked track is the number of fetched playlists that hold it.
\<close>

theorem one_increment_per_playlist:
  "track_playlistCount (trackPlaylistMap (process_playlist st items)) t =
     track_playlistCount (trackPlaylistMap st) t + (if t \<in> set (track_ids items) then 1 else 0) \<and>
   artist_playlistCount (artistMap (process_playlist st items)) a =
     artist_playlistCount (artistMap st) a + (if a \<in> set (artist_ids items) then 1 else 0) \<and>
   track_playlistCount (trackPlaylistMap (foldl process_playlist st ls)) t =
     track_playlistCount (trackPlaylistMap st) t
       + length (filter (\<lambda>items. t \<in> set (track_ids items)) ls) \<and>
   artist_playlistCount (artistMap (foldl process_playlist st ls)) a =
     artist_playlistCount (artistMap st) a
       + length (filter (\<lambda>items. a \<in> set (artist_ids items)) ls) \<and>
   (snapshot_of (GET lc P) = Some s \<longrightarrow>
      (\<forall>row\<in>set (artistTable s).
         ar_playlistCount row =
           length (filter (\<lambda>items. ar_artistId row \<in> set (artist_ids items)) (scanned P))) \<and>
      (\<forall>e\<in>set (topTracksByPlaylists s).
         tt_playlistCount e =
           length (filter (\<lambda>items. tt_trackId e \<in> set (track_ids items)) (scanned P))))"
proof -
  have snap: "(\<forall>row\<in>set (artistTable s).
         ar_playlistCount row =
           length (filter (\<lambda>items. ar_artistId row \<in> set (artist_ids items)) (scanned P))) \<and>
      (\<forall>e\<in>set (topTracksByPlaylists s).
         tt_playlistCount e =
           length (filter (\<lambda>items. tt_trackId e \<in> set (track_ids items)) (scanned P)))"
    if ok: "snapshot_of (GET lc P) = Some s"
  proof -
    from ok obtain st' where
      s: "s = build_snapshot lc (length (listed P)) st'" and
      da: "distinct (map fst (artistMap st'))" and
      dt: "distinct (map fst (trackPlaylistMap st'))" and
      ac: "\<And>a. artist_playlistCount (artistMap st') a =
             length (filter (\<lambda>items. a \<in> set (artist_ids items)) (scanned P))" and
      tc: "\<And>t. track_playlistCount (trackPlaylistMap st') t =
             length (filter (\<lambda>items. t \<in> set (track_ids items)) (scanned P))"
      by (rule GET_tables) blast
    have 1: "ar_playlistCount row =
           length (filter (\<lambda>items. ar_artistId row \<in> set (artist_ids items)) (scanned P))"
      if "row \<in> set (artistTable s)" for row
    proof -
      from that obtain k r where "(k, r) \<in> set (artistMap st')" "ar_artistId row = k"
        "ar_playlistCount row = playlistCount r"
        unfolding s by (rule table_row_entry)
      then show ?thesis using entry_playlistCount[OF da, of k r] ac[of k] by simp
    qed
    have 2: "tt_playlistCount e =
           length (filter (\<lambda>items. tt_trackId e \<in> set (track_ids items)) (scanned P))"
      if "e \<in> set (topTracksByPlaylists s)" for e
    proof -
      from that obtain k r where "(k, r) \<in> set (trackPlaylistMap st')" "tt_trackId e = k"
        "tt_playlistCount e = tplaylistCount r"
        unfolding s by (rule top_tracks_entry)
      then show ?thesis using entry_track_count[OF dt, of k r] tc[of k] by simp
    qed
    show ?thesis using 1 2 by blast
  qed
  show ?thesis
    using snap
    by (simp only: process_playlist_track_count process_playlist_artist_count
        fold_track_count fold_artist_count) blast
qed

theorem one_increment_per_playlist_witness:
  "track_ids (scanned three_playlists_library ! 0) = [''T1'', ''T1'', ''T2''] \<and>
   track_playlistCount
     (trackPlaylistMap (process_playlist empty_agg (scanned three_playlists_library ! 0)))
     ''T1'' = 1 \<and>
   map ar_playlistCount
     (artistTable (the (snapshot_of (GET tiered_compare three_playlists_library)))) = [2, 1] \<and>
   map tt_playlistCount
     (topTracksByPlaylists (the (snapshot_of (GET tiered_compare three_playlists_library))))
     = [2, 1]"
proof -
  have t: "track_ids (scanned three_playlists_library ! 0) = [''T1'', ''T1'', ''T2'']"
    by code_simp
  have e: "track_playlistCount (trackPlaylistMap empty_agg) ''T1'' = 0"
    by (simp add: empty_counts)
  note w = one_increment_per_playlist[of empty_agg "scanned three_playlists_library ! 0" "''T1''"
      "''A1''" "[]" tiered_compare three_playlists_library
      "the (snapshot_of (GET tiered_compare three_playlists_library))"]
  show ?thesis
    using w t e by (simp add: three_playlists_snapshot)
qed

section \<open>The claims on counts and percentages\<close>

lemma pct_nonneg: "0 \<le> pct x d"
  by (simp add: pct_def)

lemma sum_insert_by:
  fixes f :: "'a \<Rightarrow> nat"
  shows "sum_list (map f (insert_by c x ys)) = f x + sum_list (map f ys)"
  by (induction ys) auto

lemma sum_sort_by:
  fixes f :: "'a \<Rightarrow> nat"
  shows "sum_list (map f (sort_by c xs)) = sum_list (map f xs)"
  by (induction xs) (simp_all add: sum_insert_by)

lemma sum_take_le:
  fixes f :: "'a \<Rightarrow> nat"
  shows "sum_list (map f (take k xs)) \<le> sum_list (map f xs)"
proof -
  have "sum_list (map f xs) = sum_list (map f (take k xs)) + sum_list (map f (drop k xs))"
    by (metis append_take_drop_id map_append sum_list.append)
  then show ?thesis by simp
qed

text \<open>The snapshot of the library whose only track credits one artist twice.\<close>

lemma repeated_credit_snapshot:
  "snapshot_of (GET tiered_compare repeated_credit_library) =
   Some \<lparr>totals = \<lparr>totalPlaylists = 1, totalArtists = 1, totalUniqueTracks = 1\<rparr>,
         topArtistsBySongs =
           [\<lparr>ta_artistId = ''A1'', ta_artistName = ''Ann'', ta_imageUrl = None,
             ta_value = 2, ta_percent = 200\<rparr>],
         topArtistsByPlaylists =
           [\<lparr>ta_artistId = ''A1'', ta_artistName = ''Ann'', ta_imageUrl = None,
             ta_value = 1, ta_percent = 100\<rparr>],
         topTracksByPlaylists =
           [\<lparr>tt_trackId = ''T1'', tt_trackName = ''T1'', tt_mainArtistId = Some ''A1'',
             tt_mainArtistName = ''Ann'', tt_mainArtistImageUrl = None,
             tt_playlistCount = 1, tt_percent = 100\<rparr>],
         artistTable =
           [\<lparr>ar_artistId = ''A1'', ar_artistName = ''Ann'', ar_imageUrl = None,
             ar_songCount = 2, ar_songPercent = 200, ar_playlistCount = 1,
             ar_playlistPercent = 100\<rparr>],
         artists =
           [\<lparr>di_artistId = ''A1'', di_artistName = ''Ann'', di_imageUrl = None,
             di_trackCount = 2\<rparr>]\<rparr>"
  by code_simp

text \<open>The snapshot of the library whose first track credits two artists.\<close>

lemma shared_track_snapshot:
  "snapshot_of (GET tiered_compare shared_track_library) =
   Some \<lparr>totals = \<lparr>totalPlaylists = 1, totalArtists = 2, totalUniqueTracks = 3\<rparr>,
         topArtistsBySongs =
           [\<lparr>ta_artistId = ''A1'', ta_artistName = ''Ann'', ta_imageUrl = None,
             ta_value = 3, ta_percent = 100\<rparr>,
            \<lparr>ta_artistId = ''A2'', ta_artistName = ''Bob'', ta_imageUrl = None,
             ta_value = 1, ta_percent = 100 / 3\<rparr>],
         topArtistsByPlaylists =
           [\<lparr>ta_artistId = ''A1'', ta_artistName = ''Ann'', ta_imageUrl = None,
             ta_value = 1, ta_percent = 100\<rparr>,
            \<lparr>ta_artistId = ''A2'', ta_artistName = ''Bob'', ta_imageUrl = None,
             ta_value = 1, ta_percent = 100\<rparr>],
         topTracksByPlaylists =
           [\<lparr>tt_trackId = ''T1'', tt_trackName = ''T1'', tt_mainArtistId = Some ''A1'',
             tt_mainArtistName = ''Ann'', tt_mainArtistImageUrl = None,
             tt_playlistCount = 1, tt_percent = 100\<rparr>,
            \<lparr>tt_trackId = ''T2'', tt_trackName = ''T2'', tt_mainArtistId = Some ''A1'',
             tt_mainArtistName = ''Ann'', tt_mainArtistImageUrl = None,
             tt_playlistCount = 1, tt_percent = 100\<rparr>,
            \<lparr>tt_trackId = ''T3'', tt_trackName = ''T3'', tt_mainArtistId = Some ''A1'',
             tt_mainArtistName = ''Ann'', tt_mainArtistImageUrl = None,
             tt_playlistCount = 1, tt_percent = 100\<rparr>],
         artistTable =
           [\<lparr>ar_artistId = ''A1'', ar_artistName = ''Ann'', ar_imageUrl = None,
             ar_songCount = 3, ar_songPercent = 100, ar_playlistCount = 1,
             ar_playlistPercent = 100\<rparr>,
            \<lparr>ar_artistId = ''A2'', ar_artistName = ''Bob'', ar_imageUrl = None,
             ar_songCount = 1, ar_songPercent = 100 / 3, ar_playlistCount = 1,
             ar_playlistPercent = 100\<rparr>],
         artists =
           [\<lparr>di_artistId = ''A1'', di_artistName = ''Ann'', di_imageUrl = None,
             di_trackCount = 3\<rparr>,
            \<lparr>di_artistId = ''A2'', di_artistName = ''Bob'', di_imageUrl = None,
             di_trackCount = 1\<rparr>]\<rparr>"
  by code_simp

lemma scanned_length: "length (scanned P) \<le> length (listed P)"
  by (simp add: scanned_def fetched_length)

text \<open>
  Claim C5. After every scan every artist accumulator should have
  \<open>songCount \<le> totalUniqueTracks\<close> and \<open>playlistCount \<le> totalPlaylists\<close>. The
  handler breaks the first bound: the scan of one playlist with one track that credits
  artist \<^verbatim>\<open>A1\<close> twice ends with \<open>songCount = 2\<close> for \<^verbatim>\<open>A1\<close>, one unique track and a
  share of 200 percent.
\<close>

theorem repeated_credit_counted_twice:
  "map ar_artistId
     (artistTable (the (snapshot_of (GET tiered_compare repeated_credit_library)))) = [''A1''] \<and>
   map ar_songCount
     (artistTable (the (snapshot_of (GET tiered_compare repeated_credit_library)))) = [2] \<and>
   totalUniqueTracks (totals (the (snapshot_of (GET tiered_compare repeated_credit_library)))) = 1 \<and>
   map ar_songPercent
     (artistTable (the (snapshot_of (GET tiered_compare repeated_credit_library)))) = [200] \<and>
   \<not> ar_songCount
        (artistTable (the (snapshot_of (GET tiered_compare repeated_credit_library))) ! 0)
      \<le> totalUniqueTracks
           (totals (the (snapshot_of (GET tiered_compare repeated_credit_library))))"
  by (simp add: repeated_credit_snapshot)

text \<open>
  The other bound holds after every scan, and so does the first one after a scan in
  which no playable track credits the same artist identifier twice.
\<close>

lemma counts_within_totals:
  assumes "snapshot_of (GET lc P) = Some s"
  shows "(\<forall>row\<in>set (artistTable s). ar_playlistCount row \<le> totalPlaylists (totals s)) \<and>
         (list_all no_repeated_credit (scanned P) \<longrightarrow>
            (\<forall>row\<in>set (artistTable s). ar_songCount row \<le> totalUniqueTracks (totals s)))"
proof -
  from assms obtain st' where
    s: "s = build_snapshot lc (length (listed P)) st'" and
    da: "distinct (map fst (artistMap st'))" and
    ac: "\<And>a. artist_playlistCount (artistMap st') a =
           length (filter (\<lambda>items. a \<in> set (artist_ids items)) (scanned P))" and
    sb: "list_all no_repeated_credit (scanned P) \<Longrightarrow> songs_bounded st'"
    by (rule GET_tables) blast
  have 1: "ar_playlistCount row \<le> totalPlaylists (totals s)"
    if "row \<in> set (artistTable s)" for row
  proof -
    from that obtain k r where "(k, r) \<in> set (artistMap st')" "ar_artistId row = k"
      "ar_songCount row = songCount r" "ar_playlistCount row = playlistCount r"
      unfolding s by (rule table_row_entry)
    then have "ar_playlistCount row =
        length (filter (\<lambda>items. k \<in> set (artist_ids items)) (scanned P))"
      using entry_playlistCount[OF da, of k r] ac[of k] by simp
    also have "\<dots> \<le> length (scanned P)" by simp
    also have "\<dots> \<le> length (listed P)" by (rule scanned_length)
    finally show ?thesis by (simp add: s totals_build)
  qed
  have 2: "ar_songCount row \<le> totalUniqueTracks (totals s)"
    if "row \<in> set (artistTable s)" and nr: "list_all no_repeated_credit (scanned P)" for row
  proof -
    from that(1) obtain k r where "(k, r) \<in> set (artistMap st')" "ar_artistId row = k"
      "ar_songCount row = songCount r" "ar_playlistCount row = playlistCount r"
      unfolding s by (rule table_row_entry)
    then have "ar_songCount row = artist_songCount (artistMap st') k"
      using entry_songCount[OF da, of k r] by simp
    also have "\<dots> \<le> length (uniqueTrackIds st')"
      using sb[OF nr] by (simp add: songs_bounded_def)
    finally show ?thesis by (simp add: s totals_build)
  qed
  show ?thesis using 1 2 by blast
qed

lemma top_songs_values:
  "map ta_value (topArtistsBySongs (build_snapshot lc n st)) =
     map aa_songCount (take 5 (sort_by (by_songs lc) (sorted_artists lc st)))"
  by (simp add: top_songs_build top_by_songs_def comp_def)

lemma total_songs_sorted:
  "sum_list (map aa_songCount (sorted_artists lc st)) = total_songs (artistMap st)"
  by (simp add: sorted_artists_def sum_sort_by total_songs_def to_ArtistAgg_def comp_def
      case_prod_beta)

lemma top_songs_row:
  assumes "e \<in> set (topArtistsBySongs (build_snapshot lc n st))"
  shows "\<exists>r\<in>set (artistTable (build_snapshot lc n st)).
           ar_artistId r = ta_artistId e \<and> ar_songCount r = ta_value e"
proof -
  from assms obtain a where a: "a \<in> set (sorted_artists lc st)"
    and e: "e = top_by_songs (length (uniqueTrackIds st)) a"
    by (auto simp: top_songs_build set_sort_by dest!: in_take)
  have "table_row (length (uniqueTrackIds st)) n a \<in> set (artistTable (build_snapshot lc n st))"
    using a by (simp add: artistTable_build)
  moreover have "ar_artistId (table_row (length (uniqueTrackIds st)) n a) = ta_artistId e"
    and "ar_songCount (table_row (length (uniqueTrackIds st)) n a) = ta_value e"
    using e by (simp_all add: table_row_def top_by_songs_def)
  ultimately show ?thesis by blast
qed

text \<open>
  Claim C1, as the code has it. In every snapshot each entry of the top five by songs
  has \<open>percent = value / totalUniqueTracks * 100\<close>, not rounded, and zero when there
  is no unique track, where \<open>value\<close> is the \<open>songCount\<close> of the entry's artist; the
  percent is not negative, and the view has at most five entries. A track counts for
  each artist it credits, so the shares need not stay within the whole: the values
  of the view add up to at most \<open>totalUniqueTracks\<close> when every playable track of the
  fetched playlists credits at most one artist.
\<close>

theorem top_songs_percent:
  assumes "snapshot_of (GET lc P) = Some s"
  shows "(\<forall>e\<in>set (topArtistsBySongs s).
            ta_percent e =
              (if totalUniqueTracks (totals s) > 0
               then of_nat (ta_value e) / of_nat (totalUniqueTracks (totals s)) * 100
               else 0) \<and>
            0 \<le> ta_percent e \<and>
            (\<exists>r\<in>set (artistTable s).
               ar_artistId r = ta_artistId e \<and> ar_songCount r = ta_value e)) \<and>
         length (topArtistsBySongs s) \<le> 5 \<and>
         (list_all single_credit (scanned P) \<longrightarrow>
            sum_list (map ta_value (topArtistsBySongs s)) \<le> totalUniqueTracks (totals s))"
proof -
  from assms obtain st' where
    s: "s = build_snapshot lc (length (listed P)) st'" and
    tb: "list_all single_credit (scanned P) \<Longrightarrow>
           total_songs (artistMap st') \<le> length (uniqueTrackIds st')"
    by (rule GET_tables) blast
  have n: "totalUniqueTracks (totals s) = length (uniqueTrackIds st')"
    by (simp add: s totals_build)
  have 1: "ta_percent e =
              (if totalUniqueTracks (totals s) > 0
               then of_nat (ta_value e) / of_nat (totalUniqueTracks (totals s)) * 100
               else 0) \<and>
            0 \<le> ta_percent e \<and>
            (\<exists>r\<in>set (artistTable s).
               ar_artistId r = ta_artistId e \<and> ar_songCount r = ta_value e)"
    if "e \<in> set (topArtistsBySongs s)" for e
  proof -
    from that obtain k r where "(k, r) \<in> set (artistMap st')" "ta_artistId e = k"
      "ta_value e = songCount r"
      "ta_percent e = pct (songCount r) (length (uniqueTrackIds st'))"
      unfolding s by (rule top_songs_entry)
    then have "ta_percent e = pct (ta_value e) (totalUniqueTracks (totals s))"
      by (simp add: n)
    moreover have "\<exists>r\<in>set (artistTable s).
               ar_artistId r = ta_artistId e \<and> ar_songCount r = ta_value e"
      using that unfolding s by (rule top_songs_row)
    ultimately show ?thesis using pct_nonneg by (simp add: pct_def)
  qed
  have 2: "length (topArtistsBySongs s) \<le> 5"
    by (simp add: s top_songs_build)
  have 3: "sum_list (map ta_value (topArtistsBySongs s)) \<le> totalUniqueTracks (totals s)"
    if sc: "list_all single_credit (scanned P)"
  proof -
    have "sum_list (map ta_value (topArtistsBySongs s))
        = sum_list (map aa_songCount (take 5 (sort_by (by_songs lc) (sorted_artists lc st'))))"
      by (simp only: s top_songs_values)
    also have "\<dots> \<le> sum_list (map aa_songCount (sort_by (by_songs lc) (sorted_artists lc st')))"
      by (rule sum_take_le)
    also have "\<dots> = total_songs (artistMap st')"
      by (simp add: sum_sort_by total_songs_sorted)
    also have "\<dots> \<le> length (uniqueTrackIds st')"
      using sc by (rule tb)
    finally show ?thesis by (simp add: n)
  qed
  show ?thesis using 1 2 3 by blast
qed

theorem top_songs_percent_witness:
  "list_all single_credit (scanned three_playlists_library) \<and>
   map ta_percent
     (topArtistsBySongs (the (snapshot_of (GET tiered_compare three_playlists_library))))
     = [50, 50] \<and>
   map ta_value
     (topArtistsBySongs (the (snapshot_of (GET tiered_compare three_playlists_library))))
     = [1, 1] \<and>
   totalUniqueTracks (totals (the (snapshot_of (GET tiered_compare three_playlists_library)))) = 2"
proof -
  have sc: "list_all single_credit (scanned three_playlists_library)"
    by code_simp
  show ?thesis
    using top_songs_percent[OF three_playlists_snapshot] sc
    by (simp add: three_playlists_snapshot)
qed

text \<open>
  In the library whose first track credits two artists the shares are 100 and a third
  of 100; rounded to one decimal the second would be 33.3.
\<close>

theorem top_songs_percent_counterexample:
  "\<not> sum_list (map ta_percent
        (topArtistsBySongs (the (snapshot_of (GET tiered_compare shared_track_library)))))
      \<le> 100 \<and>
   ta_value
     (topArtistsBySongs (the (snapshot_of (GET tiered_compare shared_track_library))) ! 1) = 1 \<and>
   totalUniqueTracks (totals (the (snapshot_of (GET tiered_compare shared_track_library)))) = 3 \<and>
   ta_percent
     (topArtistsBySongs (the (snapshot_of (GET tiered_compare shared_track_library))) ! 1)
     = 100 / 3 \<and>
   ta_percent
     (topArtistsBySongs (the (snapshot_of (GET tiered_compare shared_track_library))) ! 1)
     \<noteq> 333 / 10"
  by (simp add: shared_track_snapshot)

section \<open>The claims on ranking\<close>



lemma consistent_upper_first: "consistent upper_first_compare"
  unfolding consistent_def upper_first_compare_def fold_compare_def code_unit_compare_def
    or_else_def
  by (auto split: if_splits)

text \<open>The tables at the end of the scan of the library with six artists.\<close>

lemma tie_library_tables:
  "foldl process_playlist empty_agg (scanned tie_library) = tie_tables"
  by code_simp

text \<open>The tables at the end of the scan of the library of names \<^verbatim>\<open>same\<close> and \<^verbatim>\<open>Same\<close>.\<close>

lemma same_library_tables:
  "foldl process_playlist empty_agg (scanned same_library) = same_tables"
  by code_simp




section \<open>The claims on the handler's edges\<close>

lemma build_snapshot_percents:
  "(\<forall>e\<in>set (topArtistsBySongs (build_snapshot lc n st)).
      ta_percent e = pct (ta_value e) (length (uniqueTrackIds st))) \<and>
   (\<forall>e\<in>set (topArtistsByPlaylists (build_snapshot lc n st)).
      ta_percent e = pct (ta_value e) n) \<and>
   (\<forall>e\<in>set (topTracksByPlaylists (build_snapshot lc n st)).
      tt_percent e = pct (tt_playlistCount e) n) \<and>
   (\<forall>r\<in>set (artistTable (build_snapshot lc n st)).
      ar_songPercent r = pct (ar_songCount r) (length (uniqueTrackIds st)) \<and>
      ar_playlistPercent r = pct (ar_playlistCount r) n)"
  by (auto simp: build_snapshot_def Let_def top_by_songs_def top_by_playlists_def top_track_def
      table_row_def)

text \<open>
  Claim C7. With a token and an empty list of playlists the handler answers with the
  snapshot whose totals are all zero and whose five views are empty, after asking only
  for the token and the playlists. A percentage is \<open>x / denom * 100\<close> when
  \<open>denom > 0\<close> and zero otherwise, so the division is never made with a zero
  denominator, and every percent field of every snapshot is such a percentage.
\<close>

theorem empty_library:
  assumes "getAccessToken P = Some token" and "token \<noteq> []"
    and "fetchAllPlaylists P token = Inr []"
  shows "GET lc P =
           ([GetAccessToken, FetchAllPlaylists token],
            Inr \<lparr>status = 200,
                 body = SnapshotBody
                   \<lparr>totals = \<lparr>totalPlaylists = 0, totalArtists = 0, totalUniqueTracks = 0\<rparr>,
                    topArtistsBySongs = [], topArtistsByPlaylists = [],
                    topTracksByPlaylists = [], artistTable = [], artists = []\<rparr>\<rparr>) \<and>
         pct x denom = (if denom > 0 then of_nat x / of_nat denom * 100 else 0) \<and>
         pct x 0 = 0 \<and>
         (\<forall>e\<in>set (topArtistsBySongs (build_snapshot lc n st)).
            ta_percent e = pct (ta_value e) (totalUniqueTracks (totals (build_snapshot lc n st)))) \<and>
         (\<forall>e\<in>set (topArtistsByPlaylists (build_snapshot lc n st)).
            ta_percent e = pct (ta_value e) (totalPlaylists (totals (build_snapshot lc n st)))) \<and>
         (\<forall>e\<in>set (topTracksByPlaylists (build_snapshot lc n st)).
            tt_percent e =
              pct (tt_playlistCount e) (totalPlaylists (totals (build_snapshot lc n st)))) \<and>
         (\<forall>r\<in>set (artistTable (build_snapshot lc n st)).
            ar_songPercent r =
              pct (ar_songCount r) (totalUniqueTracks (totals (build_snapshot lc n st))) \<and>
            ar_playlistPercent r =
              pct (ar_playlistCount r) (totalPlaylists (totals (build_snapshot lc n st))))"
proof -
  have "GET lc P =
           ([GetAccessToken, FetchAllPlaylists token],
            Inr \<lparr>status = 200,
                 body = SnapshotBody
                   \<lparr>totals = \<lparr>totalPlaylists = 0, totalArtists = 0, totalUniqueTracks = 0\<rparr>,
                    topArtistsBySongs = [], topArtistsByPlaylists = [],
                    topTracksByPlaylists = [], artistTable = [], artists = []\<rparr>\<rparr>)"
    using assms
    by (simp add: GET_def Let_def empty_agg_def enrich_def build_snapshot_def
        sorted_artists_def)
  moreover have "pct x denom = (if denom > 0 then of_nat x / of_nat denom * 100 else 0)"
    by (simp add: pct_def)
  moreover have "pct x 0 = 0" by (simp add: pct_def)
  ultimately show ?thesis
    using build_snapshot_percents[of lc n st] by (simp add: totals_build)
qed

theorem empty_library_witness:
  "getAccessToken (mk_library []) = Some ''token'' \<and>
   fetchAllPlaylists (mk_library []) ''token'' = Inr [] \<and>
   GET tiered_compare (mk_library []) =
     ([GetAccessToken, FetchAllPlaylists ''token''],
      Inr \<lparr>status = 200,
           body = SnapshotBody
             \<lparr>totals = \<lparr>totalPlaylists = 0, totalArtists = 0, totalUniqueTracks = 0\<rparr>,
              topArtistsBySongs = [], topArtistsByPlaylists = [],
              topTracksByPlaylists = [], artistTable = [], artists = []\<rparr>\<rparr>) \<and>
   pct 3 0 = 0"
proof -
  have a: "getAccessToken (mk_library []) = Some ''token''"
    and b: "fetchAllPlaylists (mk_library []) ''token'' = Inr []"
    by (simp_all add: mk_library_def)
  have c: "''token'' \<noteq> []" by simp
  show ?thesis
    using empty_library[OF a c b, of tiered_compare 3 0 0 empty_agg] a b by simp
qed

text \<open>
  Claim C8. When the credential provider gives no token (or an empty one), the handler
  answers at once with status 401 and the error \<^verbatim>\<open>not_authenticated\<close>; its only call is
  the one for the token, made once, and no fetch helper is called.
\<close>

theorem no_token_no_scan:
  assumes "\<not> truthy (getAccessToken P)"
  shows "GET lc P =
           ([GetAccessToken], Inr \<lparr>status = 401, body = ErrorBody ''not_authenticated''\<rparr>)"
  using assms by (simp add: GET_def)

theorem no_token_no_scan_witness:
  "\<not> truthy (getAccessToken signed_out) \<and>
   fetchAllPlaylists signed_out ''token'' = Inr [Some \<lparr>playlist_id = Some ''p1''\<rparr>] \<and>
   GET tiered_compare signed_out =
     ([GetAccessToken], Inr \<lparr>status = 401, body = ErrorBody ''not_authenticated''\<rparr>)"
proof -
  have t: "\<not> truthy (getAccessToken signed_out)"
    by (simp add: signed_out_def)
  have f: "fetchAllPlaylists signed_out ''token'' = Inr [Some \<lparr>playlist_id = Some ''p1''\<rparr>]"
    by (simp add: signed_out_def shared_track_library_def mk_library_def)
  show ?thesis using no_token_no_scan[OF t, of tiered_compare] t f by simp
qed

lemma fetched_skip:
  "fetched P token pls = fetched P token (filter (\<lambda>pl. truthy (id_of_playlist pl)) pls)"
  by (induction pls) (simp_all split: sum.splits)

lemma tracks_calls_append:
  "tracks_calls (cs @ ds) = tracks_calls cs @ tracks_calls ds"
  by (induction cs rule: tracks_calls.induct) simp_all

lemma scan_playlists_calls:
  "scan_playlists P token pls calls st = (calls', Inr st') \<Longrightarrow>
   tracks_calls calls' =
     tracks_calls calls @
       map (\<lambda>pl. the (id_of_playlist pl)) (filter (\<lambda>pl. truthy (id_of_playlist pl)) pls)"
proof (induction pls arbitrary: calls st)
  case Nil
  then show ?case by simp
next
  case (Cons pl pls)
  show ?case
  proof (cases "truthy (id_of_playlist pl)")
    case False
    then show ?thesis using Cons by simp
  next
    case True
    show ?thesis
    proof (cases "fetchAllPlaylistTracks P token (the (id_of_playlist pl))")
      case (Inl e)
      then show ?thesis using True Cons.prems by (simp add: Let_def)
    next
      case (Inr items)
      then have "scan_playlists P token pls
          (calls @ [FetchAllPlaylistTracks token (the (id_of_playlist pl))])
          (process_playlist st items) = (calls', Inr st')"
        using True Cons.prems by (simp add: Let_def)
      from Cons.IH[OF this] show ?thesis using True by (simp add: tracks_calls_append)
    qed
  qed
qed

lemma GET_calls:
  assumes "snapshot_of (GET lc P) = Some s"
  shows "tracks_calls (fst (GET lc P)) =
     map (\<lambda>pl. the (id_of_playlist pl)) (filter (\<lambda>pl. truthy (id_of_playlist pl)) (listed P))"
proof -
  have t: "truthy (getAccessToken P)"
    using assms by (auto simp: GET_def Let_def split: if_splits)
  obtain pls where pls: "fetchAllPlaylists P (the (getAccessToken P)) = Inr pls"
    using assms t by (cases "fetchAllPlaylists P (the (getAccessToken P))")
      (auto simp: GET_def Let_def)
  have l: "listed P = pls" using t pls by (simp add: listed_def)
  obtain calls r where sc: "scan_playlists P (the (getAccessToken P)) pls
      [GetAccessToken, FetchAllPlaylists (the (getAccessToken P))] empty_agg = (calls, r)"
    by (cases "scan_playlists P (the (getAccessToken P)) pls
      [GetAccessToken, FetchAllPlaylists (the (getAccessToken P))] empty_agg")
  obtain st where st: "r = Inr st"
    using assms t pls sc by (cases r) (auto simp: GET_def Let_def)
  have c: "tracks_calls calls =
     map (\<lambda>pl. the (id_of_playlist pl)) (filter (\<lambda>pl. truthy (id_of_playlist pl)) pls)"
    using scan_playlists_calls[OF sc[unfolded st]] by simp
  obtain calls' r' where en: "enrich P (the (getAccessToken P)) calls st = (calls', r')"
    by (cases "enrich P (the (getAccessToken P)) calls st")
  obtain st' where st': "r' = Inr st'"
    using assms t pls sc st en by (cases r') (auto simp: GET_def Let_def)
  have "tracks_calls calls' = tracks_calls calls"
    using en st' by (auto simp: enrich_def Let_def tracks_calls_append split: if_splits sum.splits)
  moreover have "fst (GET lc P) = calls'"
    using t pls sc st en st' by (simp add: GET_def Let_def)
  ultimately show ?thesis using c l by simp
qed

text \<open>
  Claim C10. A playlist without identifier is counted in \<open>totalPlaylists\<close>, which is
  the number of playlists listed and the denominator of every playlist percentage; its
  items are never asked for, and the playlist counts are those of the playlists that
  have an identifier.
\<close>

theorem playlist_without_id:
  assumes "snapshot_of (GET lc P) = Some s"
  shows "totalPlaylists (totals s) = length (listed P) \<and>
         length (listed P) =
           length (filter (\<lambda>pl. truthy (id_of_playlist pl)) (listed P)) +
           length (filter (\<lambda>pl. \<not> truthy (id_of_playlist pl)) (listed P)) \<and>
         tracks_calls (fst (GET lc P)) =
           map (\<lambda>pl. the (id_of_playlist pl))
             (filter (\<lambda>pl. truthy (id_of_playlist pl)) (listed P)) \<and>
         scanned P =
           fetched P (the (getAccessToken P))
             (filter (\<lambda>pl. truthy (id_of_playlist pl)) (listed P)) \<and>
         (\<forall>e\<in>set (topArtistsByPlaylists s). ta_percent e = pct (ta_value e) (length (listed P))) \<and>
         (\<forall>e\<in>set (topTracksByPlaylists s).
            tt_percent e = pct (tt_playlistCount e) (length (listed P)) \<and>
            tt_playlistCount e =
              length (filter (\<lambda>items. tt_trackId e \<in> set (track_ids items)) (scanned P))) \<and>
         (\<forall>r\<in>set (artistTable s).
            ar_playlistPercent r = pct (ar_playlistCount r) (length (listed P)) \<and>
            ar_playlistCount r =
              length (filter (\<lambda>items. ar_artistId r \<in> set (artist_ids items)) (scanned P)))"
proof -
  from assms obtain st' where
    s: "s = build_snapshot lc (length (listed P)) st'" and
    da: "distinct (map fst (artistMap st'))" and
    dt: "distinct (map fst (trackPlaylistMap st'))" and
    ac: "\<And>a. artist_playlistCount (artistMap st') a =
           length (filter (\<lambda>items. a \<in> set (artist_ids items)) (scanned P))" and
    tc: "\<And>t. track_playlistCount (trackPlaylistMap st') t =
           length (filter (\<lambda>items. t \<in> set (track_ids items)) (scanned P))"
    by (rule GET_tables) blast
  have 1: "totalPlaylists (totals s) = length (listed P)"
    by (simp add: s totals_build)
  have 2: "length (listed P) =
           length (filter (\<lambda>pl. truthy (id_of_playlist pl)) (listed P)) +
           length (filter (\<lambda>pl. \<not> truthy (id_of_playlist pl)) (listed P))"
    by (rule sum_length_filter_compl[symmetric])
  have 3: "tracks_calls (fst (GET lc P)) =
           map (\<lambda>pl. the (id_of_playlist pl))
             (filter (\<lambda>pl. truthy (id_of_playlist pl)) (listed P))"
    using assms by (rule GET_calls)
  have 4: "scanned P =
           fetched P (the (getAccessToken P))
             (filter (\<lambda>pl. truthy (id_of_playlist pl)) (listed P))"
    unfolding scanned_def by (rule fetched_skip)
  note p = build_snapshot_percents[of lc "length (listed P)" st', folded s]
  have 5: "tt_playlistCount e =
           length (filter (\<lambda>items. tt_trackId e \<in> set (track_ids items)) (scanned P))"
    if "e \<in> set (topTracksByPlaylists s)" for e
  proof -
    from that obtain k r where "(k, r) \<in> set (trackPlaylistMap st')" "tt_trackId e = k"
      "tt_playlistCount e = tplaylistCount r"
      unfolding s by (rule top_tracks_entry)
    then show ?thesis using entry_track_count[OF dt, of k r] tc[of k] by simp
  qed
  have 6: "ar_playlistCount row =
           length (filter (\<lambda>items. ar_artistId row \<in> set (artist_ids items)) (scanned P))"
    if "row \<in> set (artistTable s)" for row
  proof -
    from that obtain k r where "(k, r) \<in> set (artistMap st')" "ar_artistId row = k"
      "ar_songCount row = songCount r" "ar_playlistCount row = playlistCount r"
      unfolding s by (rule table_row_entry)
    then show ?thesis using entry_playlistCount[OF da, of k r] ac[of k] by simp
  qed
  show ?thesis using 1 2 3 4 5 6 p by simp
qed

theorem playlist_without_id_witness:
  "map id_of_playlist (listed three_playlists_library) = [Some ''p1'', None, Some ''p3''] \<and>
   totalPlaylists (totals (the (snapshot_of (GET tiered_compare three_playlists_library)))) = 3 \<and>
   tracks_calls (fst (GET tiered_compare three_playlists_library)) = [''p1'', ''p3''] \<and>
   map ta_percent
     (topArtistsByPlaylists (the (snapshot_of (GET tiered_compare three_playlists_library))))
     = [200 / 3, 100 / 3]"
proof -
  have l: "listed three_playlists_library =
      [Some \<lparr>playlist_id = Some ''p1''\<rparr>, Some \<lparr>playlist_id = None\<rparr>,
       Some \<lparr>playlist_id = Some ''p3''\<rparr>]"
    by code_simp
  show ?thesis
    using playlist_without_id[OF three_playlists_snapshot] l
    by (simp add: three_playlists_snapshot)
qed

section \<open>The claim on progress files\<close>

text \<open>What fails the structural validation.\<close>

lemma wrong_version: "get ''version'' x \<noteq> Some (JNum 1) \<Longrightarrow> \<not> isProgressFileV1 x"
  by (simp add: isProgressFileV1_def)

lemma missing_field:
  "get ''exportedAt'' x = None \<or> get ''data'' x = None \<or> get ''deckIndex'' x = None \<or>
   get ''decisions'' x = None \<Longrightarrow> \<not> isProgressFileV1 x"
  by (auto simp: isProgressFileV1_def)

text \<open>
  Claim C2, as the code has it. A parsed file that fails \<open>isProgressFileV1\<close>, as one
  with another version tag or without a required field does, is rejected before
  anything is restored: the snapshot data, the decisions, the deck index, the insight
  page and the stored copies stay as they were. The view mode does not: the page goes
  to the start screen, and it shows the error \<^verbatim>\<open>Invalid progress file.\<close>
\<close>

theorem malformed_import_rejected:
  assumes "\<not> isProgressFileV1 parsed"
  shows "onResumeFileSelected toNumber (Parsed parsed) st =
           st\<lparr>error := Some ''Invalid progress file.'', mode := Start\<rparr> \<and>
         data (onResumeFileSelected toNumber (Parsed parsed) st) = data st \<and>
         decisions (onResumeFileSelected toNumber (Parsed parsed) st) = decisions st \<and>
         deckIndex (onResumeFileSelected toNumber (Parsed parsed) st) = deckIndex st \<and>
         insightPage (onResumeFileSelected toNumber (Parsed parsed) st) = insightPage st \<and>
         storage (onResumeFileSelected toNumber (Parsed parsed) st) = storage st \<and>
         mode (onResumeFileSelected toNumber (Parsed parsed) st) = Start \<and>
         (get ''version'' x \<noteq> Some (JNum 1) \<longrightarrow> \<not> isProgressFileV1 x) \<and>
         (get ''exportedAt'' x = None \<or> get ''data'' x = None \<or> get ''deckIndex'' x = None \<or>
          get ''decisions'' x = None \<longrightarrow> \<not> isProgressFileV1 x)"
  using assms wrong_version[of x] missing_field[of x]
  by (simp add: onResumeFileSelected_def)

theorem malformed_import_rejected_witness:
  "\<not> isProgressFileV1 version_2_file \<and>
   onResumeFileSelected (\<lambda>v. None) (Parsed version_2_file) insights_page =
     insights_page\<lparr>error := Some ''Invalid progress file.'', mode := Start\<rparr> \<and>
   data (onResumeFileSelected (\<lambda>v. None) (Parsed version_2_file) insights_page) =
     Some (JObj [(''totals'', JObj []), (''artists'', JArr [])]) \<and>
   deckIndex (onResumeFileSelected (\<lambda>v. None) (Parsed version_2_file) insights_page) = 1"
proof -
  have v: "\<not> isProgressFileV1 version_2_file"
    by (simp add: isProgressFileV1_def version_2_file_def)
  show ?thesis
    using malformed_import_rejected[OF v, of "\<lambda>v. None" insights_page JNull] v
    by (simp add: insights_page_def)
qed

theorem malformed_import_rejected_counterexample:
  "\<not> isProgressFileV1 version_2_file \<and>
   mode insights_page = Insights \<and>
   mode (onResumeFileSelected (\<lambda>v. None) (Parsed version_2_file) insights_page) = Start \<and>
   mode (onResumeFileSelected (\<lambda>v. None) (Parsed version_2_file) insights_page)
     \<noteq> mode insights_page"
  by (simp add: isProgressFileV1_def version_2_file_def onResumeFileSelected_def
      insights_page_def)

section \<open>The claim on saving and restoring progress\<close>














end
